theory Spec2Isabelle
  imports Main
begin

text \<open>
  The router of the package \<open>muxer\<close>: routes compiled from path templates, dispatch by
  \<open>ServeHTTP\<close> over children and routes, the middleware chain, the parameters in the
  request context and the limit on request bodies.  Dispatch is modelled on routers as
  values, the operations that mutate routers through pointers on a heap.
\<close>

section \<open>Strings and character classes\<close>

text \<open>
  Go strings are byte sequences; \<open>string\<close> is a list of 8-bit characters.  The classes
  below are the ASCII classes of Go's \<open>regexp\<close> syntax: \<open>\w\<close> is \<open>[0-9A-Za-z_]\<close>.
\<close>

definition backslash :: char where
  "backslash = CHR 0x5C"

definition word_char :: "char \<Rightarrow> bool" where
  "word_char c =
     (let n = (of_char c :: nat)
      in (48 \<le> n \<and> n \<le> 57) \<or> (65 \<le> n \<and> n \<le> 90) \<or> n = 95 \<or> (97 \<le> n \<and> n \<le> 122))"

text \<open>The class \<open>[\w-]\<close> of the token pattern \<open>:([\w-]+)\<close> in \<open>HandleRoute\<close>.\<close>

definition name_char :: "char \<Rightarrow> bool" where
  "name_char c = (word_char c \<or> c = CHR ''-'')"

text \<open>The class \<open>[-\w.]\<close> of the group \<open>([-\w.]+)\<close> that replaces a token.\<close>

definition value_char :: "char \<Rightarrow> bool" where
  "value_char c = (c = CHR ''-'' \<or> word_char c \<or> c = CHR ''.'')"

text \<open>The replacement text \<open>([-\w.]+)\<close> returned by the callback in \<open>HandleRoute\<close>.\<close>

definition group_src :: string where
  "group_src = [CHR ''('', CHR ''['', CHR ''-'', backslash, CHR ''w'', CHR ''.'', CHR '']'',
                CHR ''+'', CHR '')'']"

section \<open>The fragment of Go's regexp package that route patterns use\<close>

text \<open>
  \<open>regexp\<close> is Go's standard library, not code of the repository.  It is modelled for
  the patterns \<open>^\<close> \<open>items\<close> \<open>$\<close> whose items are: a literal ASCII character that has
  no special meaning, such a character followed by the repetition operator \<open>*\<close>, and the
  group \<open>([-\w.]+)\<close>.  Every other pattern yields \<open>PatternNotModelled\<close>: there Go either
  panics in \<open>MustCompile\<close> or builds a matcher this theory does not describe.
\<close>

datatype error = PatternNotModelled | IndexOutOfRange

datatype item = Lit char | Star char | Group

type_synonym regex = "item list"

definition meta_char :: "char \<Rightarrow> bool" where
  "meta_char c = (c \<in> set ''.+*?()|[]{}^$'' \<or> c = backslash)"

definition plain_char :: "char \<Rightarrow> bool" where
  "plain_char c = ((of_char c :: nat) < 128 \<and> \<not> meta_char c)"

fun parse_items :: "string \<Rightarrow> item list option" where
  "parse_items [] = Some []"
| "parse_items (c # cs) =
     (if c = CHR ''('' then
        (if take 8 cs = tl group_src
         then map_option ((#) Group) (parse_items (drop 8 cs))
         else None)
      else if plain_char c then
        (case cs of
           [] \<Rightarrow> Some [Lit c]
         | d # ds \<Rightarrow>
             if d = CHR ''*''
             then map_option ((#) (Star c)) (parse_items ds)
             else map_option ((#) (Lit c)) (parse_items (d # ds)))
      else None)"

text \<open>
  \<open>regexp.MustCompile\<close> on the fragment.  The result stands for the anchored pattern
  \<open>^items$\<close>; without the flag \<open>m\<close>, \<open>^\<close> and \<open>$\<close> match only at the two ends of
  the text.
\<close>

definition MustCompile :: "string \<Rightarrow> error + regex" where
  "MustCompile s =
     (if 2 \<le> length s \<and> hd s = CHR ''^'' \<and> last s = CHR ''$'' then
        (case parse_items (butlast (tl s)) of
           None \<Rightarrow> Inl PatternNotModelled
         | Some its \<Rightarrow> Inr its)
      else Inl PatternNotModelled)"

text \<open>
  Matching gives the result of Go's leftmost-first search: repetition is greedy and gives
  characters back one at a time when the rest of the pattern fails.  \<open>k\<close> is the rest of
  the pattern.
\<close>

fun star_greedy :: "char \<Rightarrow> (string \<Rightarrow> 'a option) \<Rightarrow> string \<Rightarrow> 'a option" where
  "star_greedy c k [] = k []"
| "star_greedy c k (x # xs) =
     (if x = c then
        (case star_greedy c k xs of
           Some r \<Rightarrow> Some r
         | None \<Rightarrow> k (x # xs))
      else k (x # xs))"

fun group_greedy :: "(string \<Rightarrow> string \<Rightarrow> 'a option) \<Rightarrow> string \<Rightarrow> string \<Rightarrow> 'a option" where
  "group_greedy k acc [] = (if acc = [] then None else k acc [])"
| "group_greedy k acc (x # xs) =
     (if value_char x then
        (case group_greedy k (acc @ [x]) xs of
           Some r \<Rightarrow> Some r
         | None \<Rightarrow> if acc = [] then None else k acc (x # xs))
      else if acc = [] then None else k acc (x # xs))"

text \<open>The captured texts of the groups, in order, when the whole text matches.\<close>

fun match_items :: "item list \<Rightarrow> string \<Rightarrow> string list option" where
  "match_items [] s = (if s = [] then Some [] else None)"
| "match_items (Lit c # its) s =
     (case s of
        [] \<Rightarrow> None
      | x # xs \<Rightarrow> if x = c then match_items its xs else None)"
| "match_items (Star c # its) s = star_greedy c (match_items its) s"
| "match_items (Group # its) s =
     group_greedy (\<lambda>cap rest. map_option ((#) cap) (match_items its rest)) [] s"

text \<open>
  \<open>FindStringSubmatch\<close>: \<open>None\<close> is Go's nil; otherwise element 0 is the whole match
  and element \<open>i + 1\<close> the text of group \<open>i\<close>.
\<close>

definition FindStringSubmatch :: "regex \<Rightarrow> string \<Rightarrow> string list option" where
  "FindStringSubmatch re s = map_option ((#) s) (match_items re s)"

section \<open>Requests, responses and handlers\<close>

text \<open>
  A request body is a stream; \<open>MaxBytesReader b n\<close> is \<open>http.MaxBytesReader\<close> around
  \<open>b\<close>, which fails once more than \<open>n\<close> bytes have been read.
\<close>

datatype Body = Raw string | MaxBytesReader Body int

datatype read_error = BodyTooLarge

fun ReadAll :: "Body \<Rightarrow> read_error + string" where
  "ReadAll (Raw d) = Inr d"
| "ReadAll (MaxBytesReader b n) =
     (case ReadAll b of
        Inl e \<Rightarrow> Inl e
      | Inr d \<Rightarrow> if int (length d) > n then Inl BodyTooLarge else Inr d)"

text \<open>
  The fields of \<open>Route\<close> other than the handler; the request context refers to the
  matched route through them.  The field \<open>method\<close> is written \<open>method'\<close>.
\<close>

record RouteInfo =
  path :: regex
  method' :: string
  params :: "string list"
  template :: string

text \<open>
  Context keys are compared with their type: a key of type \<open>contextKey\<close> differs from
  every key of another package.
\<close>

datatype ctx_key = contextKey string | other_key string

definition ParamsKey :: ctx_key where
  "ParamsKey = contextKey ''params''"

definition RouteContextKey :: ctx_key where
  "RouteContextKey = contextKey ''matched_route''"

datatype ctx_val = VParams "string \<rightharpoonup> string" | VRoute RouteInfo | VOther string

text \<open>
  \<open>ctx\<close> is the chain built by \<open>context.WithValue\<close>, newest binding first;
  \<open>ContentLength\<close> is \<open>-1\<close> when the length is unknown; \<open>Body = None\<close> is a nil body.
\<close>

record Request =
  Method :: string
  URL_Path :: string
  URL_Host :: string
  ContentLength :: int
  Body :: "Body option"
  ctx :: "(ctx_key \<times> ctx_val) list"

definition WithValue :: "(ctx_key \<times> ctx_val) list \<Rightarrow> ctx_key \<Rightarrow> ctx_val \<Rightarrow> (ctx_key \<times> ctx_val) list" where
  "WithValue c k v = (k, v) # c"

definition Value :: "(ctx_key \<times> ctx_val) list \<Rightarrow> ctx_key \<Rightarrow> ctx_val option" where
  "Value c k = map_of c k"

text \<open>
  The response writer records what \<open>httptest.ResponseRecorder\<close> records: the first
  \<open>WriteHeader\<close> fixes the status, a \<open>Write\<close> before it implies status 200.
\<close>

record ResponseWriter =
  Code :: int
  wroteHeader :: bool
  HeaderMap :: "string \<rightharpoonup> string"
  Written :: string

definition NewRecorder :: ResponseWriter where
  "NewRecorder = \<lparr>Code = 200, wroteHeader = False, HeaderMap = Map.empty, Written = []\<rparr>"

definition WriteHeader :: "ResponseWriter \<Rightarrow> int \<Rightarrow> ResponseWriter" where
  "WriteHeader w code = (if wroteHeader w then w else w\<lparr>Code := code, wroteHeader := True\<rparr>)"

definition Write :: "ResponseWriter \<Rightarrow> string \<Rightarrow> ResponseWriter" where
  "Write w b = (let w1 = WriteHeader w 200 in w1\<lparr>Written := Written w1 @ b\<rparr>)"

definition http_Error :: "ResponseWriter \<Rightarrow> string \<Rightarrow> int \<Rightarrow> ResponseWriter" where
  "http_Error w msg code =
     Write
       (WriteHeader
          (w\<lparr>HeaderMap := (HeaderMap w)
                (''Content-Type'' \<mapsto> ''text/plain; charset=utf-8'',
                 ''X-Content-Type-Options'' \<mapsto> ''nosniff'')\<rparr>)
          code)
       (msg @ [CHR 0x0A])"

type_synonym Handler = "Request \<Rightarrow> ResponseWriter \<Rightarrow> ResponseWriter"

type_synonym Middleware = "Handler \<Rightarrow> Handler"

definition http_NotFound :: Handler where
  "http_NotFound req w = http_Error w ''404 page not found'' 404"

section \<open>Routes\<close>

record Route = RouteInfo +
  handler :: Handler

text \<open>
  The loop \<open>for i, name := range r.params { params[name] = match[i+1] }\<close>; an index
  beyond the submatch slice panics.
\<close>

fun assign_params ::
  "string list \<Rightarrow> nat \<Rightarrow> string list \<Rightarrow> (string \<rightharpoonup> string) \<Rightarrow> error + (string \<rightharpoonup> string)" where
  "assign_params [] i mt ps = Inr ps"
| "assign_params (name # names) i mt ps =
     (if i + 1 < length mt
      then assign_params names (i + 1) mt (ps(name \<mapsto> mt ! (i + 1)))
      else Inl IndexOutOfRange)"

text \<open>\<open>Inr None\<close> is the nil map, \<open>Inr (Some ps)\<close> a map that is not nil.\<close>

definition match :: "'a RouteInfo_scheme \<Rightarrow> string \<Rightarrow> error + (string \<rightharpoonup> string) option" where
  "match r p =
     (case FindStringSubmatch (path r) p of
        None \<Rightarrow> Inr None
      | Some mt \<Rightarrow>
          (case assign_params (params r) 0 mt Map.empty of
             Inl e \<Rightarrow> Inl e
           | Inr ps \<Rightarrow> Inr (Some ps)))"

section \<open>The router\<close>

text \<open>
  \<open>subrouters\<close> is a Go map, whose iteration order is not defined: the list holds its
  entries, with distinct keys, in the order in which the \<open>range\<close> statement of the
  dispatch at hand visits them.  A statement about every router is a statement about
  every such order.
\<close>

datatype Router = Router
  (routes: "Route list")
  (middleware: "Middleware list")
  (subrouters: "(string \<times> Router) list")
  (NotFoundHandler: Handler)
  (MaxRequestBodySize: int)

definition NewRouter :: "(Router \<Rightarrow> Router) list \<Rightarrow> Router" where
  "NewRouter options = fold (\<lambda>option r. option r) options (Router [] [] [] http_NotFound 0)"

definition WithNotFoundHandler :: "Handler \<Rightarrow> Router \<Rightarrow> Router" where
  "WithNotFoundHandler h r =
     Router (routes r) (middleware r) (subrouters r) h (MaxRequestBodySize r)"

definition WithMaxRequestBodySize :: "int \<Rightarrow> Router \<Rightarrow> Router" where
  "WithMaxRequestBodySize n r =
     Router (routes r) (middleware r) (subrouters r) (NotFoundHandler r) n"

text \<open>
  \<open>ReplaceAllStringFunc\<close> with the pattern \<open>:([\w-]+)\<close> and the callback of
  \<open>HandleRoute\<close>: the leftmost matches, each as long as possible, are replaced by the
  group, and the callback collects the names.
\<close>

function replace_param_tokens :: "string \<Rightarrow> string \<times> string list" where
  "replace_param_tokens [] = ([], [])"
| "replace_param_tokens (c # cs) =
     (if c = CHR '':'' \<and> takeWhile name_char cs \<noteq> [] then
        (let (out, paramNames) = replace_param_tokens (dropWhile name_char cs)
         in (group_src @ out, takeWhile name_char cs # paramNames))
      else
        (let (out, paramNames) = replace_param_tokens cs
         in (c # out, paramNames)))"
  by pat_completeness auto
termination
  by (relation "measure length") (auto simp: length_dropWhile_le less_Suc_eq_le)

definition compile_route :: "string \<Rightarrow> string \<Rightarrow> Handler \<Rightarrow> error + Route" where
  "compile_route mth p h =
     (let (pathRegex, paramNames) = replace_param_tokens p
      in case MustCompile (''^'' @ pathRegex @ ''$'') of
           Inl e \<Rightarrow> Inl e
         | Inr exactPath \<Rightarrow>
             Inr \<lparr>path = exactPath, method' = mth, params = paramNames, template = p,
                  handler = h\<rparr>)"

definition HandleRoute :: "Router \<Rightarrow> string \<Rightarrow> string \<Rightarrow> Handler \<Rightarrow> error + Router" where
  "HandleRoute r mth p h =
     (case compile_route mth p h of
        Inl e \<Rightarrow> Inl e
      | Inr route \<Rightarrow>
          Inr (Router (routes r @ [route]) (middleware r) (subrouters r) (NotFoundHandler r)
                 (MaxRequestBodySize r)))"

definition HandlerFunc :: "Router \<Rightarrow> string \<Rightarrow> string \<Rightarrow> Handler \<Rightarrow> error + Router" where
  "HandlerFunc r mth p handlerFunc = HandleRoute r mth p handlerFunc"

definition Handle :: "Router \<Rightarrow> string \<Rightarrow> string \<Rightarrow> Handler \<Rightarrow> error + Router" where
  "Handle r mth p h = HandlerFunc r mth p (\<lambda>req w. h req w)"

fun HandlerFuncWithMethods ::
  "Router \<Rightarrow> string list \<Rightarrow> string \<Rightarrow> Handler \<Rightarrow> error + Router" where
  "HandlerFuncWithMethods r [] p handlerFunc = Inr r"
| "HandlerFuncWithMethods r (mth # methods) p handlerFunc =
     (case HandlerFunc r mth p handlerFunc of
        Inl e \<Rightarrow> Inl e
      | Inr r1 \<Rightarrow> HandlerFuncWithMethods r1 methods p handlerFunc)"

definition Use :: "Router \<Rightarrow> Middleware list \<Rightarrow> Router" where
  "Use r mws =
     Router (routes r) (middleware r @ mws) (subrouters r) (NotFoundHandler r)
       (MaxRequestBodySize r)"

definition Params :: "Request \<Rightarrow> (string \<rightharpoonup> string)" where
  "Params req =
     (case Value (ctx req) ParamsKey of
        Some (VParams p) \<Rightarrow> p
      | _ \<Rightarrow> Map.empty)"

text \<open>
  The loop \<open>for i := len(r.middleware) - 1; i >= 0; i-- { handler = r.middleware[i](handler) }\<close>,
  with \<open>n = i + 1\<close>.
\<close>

fun wrap_middleware :: "nat \<Rightarrow> Middleware list \<Rightarrow> Handler \<Rightarrow> Handler" where
  "wrap_middleware 0 mws h = h"
| "wrap_middleware (Suc i) mws h = wrap_middleware i mws ((mws ! i) h)"

text \<open>The admission guard at the head of \<open>ServeHTTP\<close>; \<open>None\<close> is the rejection.\<close>

definition body_guard :: "int \<Rightarrow> Request \<Rightarrow> Request option" where
  "body_guard mx req =
     (case Body req of
        None \<Rightarrow> Some req
      | Some b \<Rightarrow>
          if mx > 0 then
            (if ContentLength req \<le> mx
             then Some (req\<lparr>Body := Some (MaxBytesReader b mx)\<rparr>)
             else None)
          else Some req)"

text \<open>The loop over \<open>r.routes\<close> and the two outcomes after it.\<close>

fun serve_routes ::
  "Route list \<Rightarrow> Middleware list \<Rightarrow> Handler \<Rightarrow> bool \<Rightarrow> Request \<Rightarrow> ResponseWriter
     \<Rightarrow> error + ResponseWriter" where
  "serve_routes [] mws nf methodMismatch req w =
     (if methodMismatch
      then Inr (http_Error w ''Method not allowed'' 405)
      else Inr (nf req w))"
| "serve_routes (route # rest) mws nf methodMismatch req w =
     (if method' route \<noteq> Method req then serve_routes rest mws nf True req w
      else
        (case match route (URL_Path req) of
           Inl e \<Rightarrow> Inl e
         | Inr None \<Rightarrow> serve_routes rest mws nf methodMismatch req w
         | Inr (Some ps) \<Rightarrow>
             Inr (wrap_middleware (length mws) mws (handler route)
                    (req\<lparr>ctx := WithValue (WithValue (ctx req) ParamsKey (VParams ps))
                                   RouteContextKey (VRoute (RouteInfo.truncate route))\<rparr>)
                    w)))"

text \<open>
  \<open>ServeHTTP\<close>, and the loop over \<open>r.subrouters\<close>: \<open>None\<close> when no child claims the
  request.
\<close>

fun ServeHTTP :: "Router \<Rightarrow> Request \<Rightarrow> ResponseWriter \<Rightarrow> error + ResponseWriter"
  and probe_subrouters ::
    "(string \<times> Router) list \<Rightarrow> Request \<Rightarrow> ResponseWriter \<Rightarrow> (error + ResponseWriter) option"
where
  "ServeHTTP (Router rts mws subs nf mx) req w =
     (case body_guard mx req of
        None \<Rightarrow> Inr (http_Error w ''Request body too large'' 413)
      | Some req1 \<Rightarrow>
          (case probe_subrouters subs req1 w of
             Some res \<Rightarrow> res
           | None \<Rightarrow> serve_routes rts mws nf False req1 w))"
| "probe_subrouters [] req w = None"
| "probe_subrouters ((prefix, subrouter) # rest) req w =
     (if prefix = URL_Host req then Some (ServeHTTP subrouter req w)
      else if take (length prefix) (URL_Path req) = prefix
      then Some (ServeHTTP subrouter (req\<lparr>URL_Path := drop (length prefix) (URL_Path req)\<rparr>) w)
      else probe_subrouters rest req w)"

section \<open>Notions used to state the properties\<close>

text \<open>A child claims a request by its host or by a literal prefix of its path.\<close>

definition claims :: "string \<Rightarrow> Request \<Rightarrow> bool" where
  "claims key req = (key = URL_Host req \<or> take (length key) (URL_Path req) = key)"

text \<open>The request a selected route's chain receives: parameters and route attached.\<close>

definition with_match :: "Request \<Rightarrow> (string \<rightharpoonup> string) \<Rightarrow> Route \<Rightarrow> Request" where
  "with_match req ps route =
     req\<lparr>ctx := WithValue (WithValue (ctx req) ParamsKey (VParams ps))
                  RouteContextKey (VRoute (RouteInfo.truncate route))\<rparr>"

text \<open>
  A template read as the specification reads it: a sequence of literal characters and of
  tokens \<open>:name\<close>, a name being a longest run of word characters and hyphens.
\<close>

datatype seg = Chr char | Param string

function tokens :: "string \<Rightarrow> seg list" where
  "tokens [] = []"
| "tokens (c # cs) =
     (if c = CHR '':'' \<and> takeWhile name_char cs \<noteq> []
      then Param (takeWhile name_char cs) # tokens (dropWhile name_char cs)
      else Chr c # tokens cs)"
  by pat_completeness auto
termination
  by (relation "measure length") (auto simp: length_dropWhile_le less_Suc_eq_le)

fun seg_item :: "seg \<Rightarrow> item" where
  "seg_item (Chr c) = Lit c"
| "seg_item (Param n) = Group"

fun seg_names :: "seg list \<Rightarrow> string list" where
  "seg_names [] = []"
| "seg_names (Chr c # segs) = seg_names segs"
| "seg_names (Param n # segs) = n # seg_names segs"

fun literal_chars :: "seg list \<Rightarrow> string" where
  "literal_chars [] = []"
| "literal_chars (Chr c # segs) = c # literal_chars segs"
| "literal_chars (Param n # segs) = literal_chars segs"

text \<open>A value a group can capture: one or more characters of the class.\<close>

definition group_value :: "string \<Rightarrow> bool" where
  "group_value v = (v \<noteq> [] \<and> list_all value_char v)"

text \<open>
  The texts an anchored pattern describes, with the text of each group: a literal stands
  for itself, a repetition for any number of copies, a group for a value.
\<close>

inductive fills :: "item list \<Rightarrow> string list \<Rightarrow> string \<Rightarrow> bool" where
  fills_Nil: "fills [] [] []"
| fills_Lit: "fills its vs s \<Longrightarrow> fills (Lit c # its) vs (c # s)"
| fills_Star: "fills its vs s \<Longrightarrow> fills (Star c # its) vs (replicate n c @ s)"
| fills_Group: "fills its vs s \<Longrightarrow> group_value v \<Longrightarrow> fills (Group # its) (v # vs) (v @ s)"

code_pred fills .

text \<open>The parameter map that pairs names and values by position; a later pair wins.\<close>

definition zip_params :: "string list \<Rightarrow> string list \<Rightarrow> (string \<rightharpoonup> string)" where
  "zip_params names vs = map_of (rev (zip names vs))"

text \<open>The number of groups of a pattern.\<close>

definition ngroups :: "regex \<Rightarrow> nat" where
  "ngroups its = length (filter (\<lambda>it. it = Group) its)"

text \<open>The pattern text of a template: each token replaced by the group.\<close>

fun render :: "seg list \<Rightarrow> string" where
  "render [] = []"
| "render (Chr c # segs) = c # render segs"
| "render (Param n # segs) = group_src @ render segs"

section \<open>Routers behind pointers\<close>

text \<open>
  \<open>Subrouter\<close> and \<open>Use\<close> work on \<open>*Router\<close> and on the slice \<open>r.middleware\<close>.
  Here the routers are objects of a heap and a slice is a window on a backing array, so
  that two routers could share elements.  An element is a middleware or Go's nil.
  Addresses are handed out in increasing order.
\<close>

record slice =
  base :: "nat option"
  len :: nat
  cap :: nat

record RouterObj =
  obj_routes :: "Route list"
  obj_middleware :: slice
  obj_subrouters :: "string \<rightharpoonup> nat"
  obj_NotFoundHandler :: Handler
  obj_MaxRequestBodySize :: int

record heap =
  objs :: "nat \<rightharpoonup> RouterObj"
  arrs :: "nat \<rightharpoonup> Middleware option list"
  next_obj :: nat
  next_arr :: nat

definition empty_heap :: heap where
  "empty_heap = \<lparr>objs = Map.empty, arrs = Map.empty, next_obj = 0, next_arr = 0\<rparr>"

text \<open>The elements \<open>s[0], ..., s[len(s) - 1]\<close>.\<close>

definition elems :: "heap \<Rightarrow> slice \<Rightarrow> Middleware option list" where
  "elems h s =
     (case base s of
        None \<Rightarrow> []
      | Some a \<Rightarrow> (case arrs h a of None \<Rightarrow> [] | Some arr \<Rightarrow> take (len s) arr))"

text \<open>
  Go's \<open>append(s, xs...)\<close>: within the capacity the elements are written into the
  backing array of \<open>s\<close>; beyond it a new array is allocated, whose capacity the runtime
  chooses (\<open>grow\<close>, at least the length needed).
\<close>

definition go_append ::
  "(nat \<Rightarrow> nat \<Rightarrow> nat) \<Rightarrow> heap \<Rightarrow> slice \<Rightarrow> Middleware option list \<Rightarrow> heap \<times> slice" where
  "go_append grow h s xs =
     (let n = len s + length xs in
      if n \<le> cap s then
        (case base s of
           None \<Rightarrow> (h, s)
         | Some a \<Rightarrow>
             (case arrs h a of
                None \<Rightarrow> (h, s)
              | Some arr \<Rightarrow>
                  (h\<lparr>arrs := (arrs h)(a \<mapsto> take (len s) arr @ xs @ drop n arr)\<rparr>,
                   s\<lparr>len := n\<rparr>)))
      else
        (let c = max n (grow (cap s) n); a = next_arr h
         in (h\<lparr>arrs := (arrs h)(a \<mapsto> elems h s @ xs @ replicate (c - n) None),
               next_arr := Suc a\<rparr>,
             \<lparr>base = Some a, len = n, cap = c\<rparr>)))"

text \<open>\<open>NewRouter\<close> without options, as an allocation.\<close>

definition new_router :: "heap \<Rightarrow> heap \<times> nat" where
  "new_router h =
     (let r = next_obj h
      in (h\<lparr>objs := (objs h)
               (r \<mapsto> \<lparr>obj_routes = [], obj_middleware = \<lparr>base = None, len = 0, cap = 0\<rparr>,
                      obj_subrouters = Map.empty, obj_NotFoundHandler = http_NotFound,
                      obj_MaxRequestBodySize = 0\<rparr>),
            next_obj := Suc r\<rparr>, r))"

text \<open>\<open>Subrouter\<close>; \<open>None\<close> when the receiver is not a router of the heap.\<close>

definition Subrouter ::
  "(nat \<Rightarrow> nat \<Rightarrow> nat) \<Rightarrow> heap \<Rightarrow> nat \<Rightarrow> string \<Rightarrow> (heap \<times> nat) option" where
  "Subrouter grow h r attrValue =
     (case objs h r of
        None \<Rightarrow> None
      | Some ro \<Rightarrow>
          (case obj_subrouters ro attrValue of
             Some c \<Rightarrow> Some (h, c)
           | None \<Rightarrow>
               (let (h1, mw) = go_append grow h \<lparr>base = None, len = 0, cap = 0\<rparr>
                                 (elems h (obj_middleware ro));
                    c = next_obj h1;
                    h2 = h1\<lparr>objs := (objs h1)
                              (c \<mapsto> \<lparr>obj_routes = [], obj_middleware = mw,
                                     obj_subrouters = Map.empty,
                                     obj_NotFoundHandler = obj_NotFoundHandler ro,
                                     obj_MaxRequestBodySize = 0\<rparr>),
                            next_obj := Suc c\<rparr>;
                    h3 = h2\<lparr>objs := (objs h2)
                              (r \<mapsto> ro\<lparr>obj_subrouters := (obj_subrouters ro)(attrValue \<mapsto> c)\<rparr>)\<rparr>
                in Some (h3, c))))"

text \<open>\<open>Use\<close> through the pointer \<open>r\<close>.\<close>

definition Use_at ::
  "(nat \<Rightarrow> nat \<Rightarrow> nat) \<Rightarrow> heap \<Rightarrow> nat \<Rightarrow> Middleware option list \<Rightarrow> heap option" where
  "Use_at grow h r mws =
     (case objs h r of
        None \<Rightarrow> None
      | Some ro \<Rightarrow>
          (let (h1, mw) = go_append grow h (obj_middleware ro) mws
           in Some (h1\<lparr>objs := (objs h1)(r \<mapsto> ro\<lparr>obj_middleware := mw\<rparr>)\<rparr>)))"

text \<open>The assignment \<open>r.NotFoundHandler = f\<close>.\<close>

definition set_NotFoundHandler :: "heap \<Rightarrow> nat \<Rightarrow> Handler \<Rightarrow> heap option" where
  "set_NotFoundHandler h r f =
     (case objs h r of
        None \<Rightarrow> None
      | Some ro \<Rightarrow> Some (h\<lparr>objs := (objs h)(r \<mapsto> ro\<lparr>obj_NotFoundHandler := f\<rparr>)\<rparr>))"

text \<open>A sequence of mutations of one router.\<close>

datatype mutation = AppendMiddleware "Middleware option list" | ReplaceNotFound Handler

fun mutate :: "(nat \<Rightarrow> nat \<Rightarrow> nat) \<Rightarrow> heap \<Rightarrow> nat \<Rightarrow> mutation list \<Rightarrow> heap option" where
  "mutate grow h r [] = Some h"
| "mutate grow h r (AppendMiddleware mws # ms) =
     (case Use_at grow h r mws of None \<Rightarrow> None | Some h1 \<Rightarrow> mutate grow h1 r ms)"
| "mutate grow h r (ReplaceNotFound f # ms) =
     (case set_NotFoundHandler h r f of None \<Rightarrow> None | Some h1 \<Rightarrow> mutate grow h1 r ms)"

text \<open>
  The heaps that the operations build: every slice lies within an allocated array of its
  capacity, no two routers share a backing array, and a child is allocated after its
  parent.
\<close>

definition slice_ok :: "heap \<Rightarrow> slice \<Rightarrow> bool" where
  "slice_ok h s =
     (case base s of
        None \<Rightarrow> len s = 0 \<and> cap s = 0
      | Some a \<Rightarrow>
          a < next_arr h \<and> len s \<le> cap s
          \<and> (case arrs h a of None \<Rightarrow> False | Some arr \<Rightarrow> length arr = cap s))"

definition heap_ok :: "heap \<Rightarrow> bool" where
  "heap_ok h =
     ((\<forall>r ro. objs h r = Some ro \<longrightarrow>
         r < next_obj h \<and> slice_ok h (obj_middleware ro)
         \<and> (\<forall>k c. obj_subrouters ro k = Some c \<longrightarrow> r < c \<and> c \<in> dom (objs h)))
      \<and> (\<forall>r1 r2 o1 o2 a.
            objs h r1 = Some o1 \<and> objs h r2 = Some o2 \<and> r1 \<noteq> r2
            \<and> base (obj_middleware o1) = Some a \<longrightarrow> base (obj_middleware o2) \<noteq> Some a))"

section \<open>Handlers, middleware and requests of the test suite\<close>

text \<open>A handler that writes a fixed text.\<close>

definition say :: "string \<Rightarrow> Handler" where
  "say s req w = Write w s"

text \<open>The handler of \<open>TestRouter\<close>: it writes the parameter of the given name.\<close>

definition echo_param :: "string \<Rightarrow> Handler" where
  "echo_param name req w = Write w (case Params req name of None \<Rightarrow> [] | Some v \<Rightarrow> v)"

text \<open>A handler that writes the path it receives, then the parameter of the given name.\<close>

definition echo_path_param :: "string \<Rightarrow> Handler" where
  "echo_path_param name req w =
     Write (Write w (URL_Path req)) (CHR ''?'' # (case Params req name of None \<Rightarrow> [] | Some v \<Rightarrow> v))"

text \<open>The handler of \<open>TestMaxRequestBodySize\<close>: it reads the whole body and echoes it.\<close>

definition echo_body :: Handler where
  "echo_body req w =
     (case Body req of
        None \<Rightarrow> WriteHeader w 200
      | Some b \<Rightarrow>
          (case ReadAll b of
             Inl e \<Rightarrow> WriteHeader w 413
           | Inr d \<Rightarrow> Write (WriteHeader w 200) d))"

text \<open>A middleware that writes its tag before and after the handler it wraps.\<close>

definition trace :: "string \<Rightarrow> Middleware" where
  "trace tag next req w = Write (next req (Write w (tag @ ''>''))) (''<'' @ tag)"

text \<open>A request as the tests build it, with an optional body of known length.\<close>

definition NewRequest :: "string \<Rightarrow> string \<Rightarrow> string option \<Rightarrow> Request" where
  "NewRequest m p b =
     \<lparr>Method = m, URL_Path = p, URL_Host = [],
      ContentLength = (case b of None \<Rightarrow> 0 | Some d \<Rightarrow> int (length d)),
      Body = map_option Raw b, ctx = []\<rparr>"

text \<open>Registration of a list of routes, stopping at the first failure.\<close>

fun HandleRoutes :: "Router \<Rightarrow> (string \<times> string \<times> Handler) list \<Rightarrow> error + Router" where
  "HandleRoutes r [] = Inr r"
| "HandleRoutes r ((m, p, h) # rest) =
     (case HandleRoute r m p h of
        Inl e \<Rightarrow> Inl e
      | Inr r1 \<Rightarrow> HandleRoutes r1 rest)"

text \<open>The response of a dispatch as the tests read it: status and body.\<close>

definition outcome :: "error + ResponseWriter \<Rightarrow> error + int \<times> string" where
  "outcome res = map_sum id (\<lambda>w. (Code w, Written w)) res"

text \<open>The router \<open>r\<close> with a child registered for the key.\<close>

definition with_child :: "Router \<Rightarrow> string \<Rightarrow> Router \<Rightarrow> Router" where
  "with_child r key c =
     Router (routes r) (middleware r) (subrouters r @ [(key, c)]) (NotFoundHandler r)
       (MaxRequestBodySize r)"

text \<open>
  A route of another method, then two routes of the same method that both match
  \<open>/users/me\<close>, on a router that also has a child for \<open>/api\<close>.
\<close>

definition precedence_router :: "error + Router" where
  "precedence_router =
     HandleRoutes (with_child (NewRouter []) ''/api'' (Router [] [] [] http_NotFound 0))
       [(''POST'', ''/users/:id'', say ''posted''),
        (''GET'', ''/users/:id'', say ''first''),
        (''GET'', ''/users/me'', say ''second'')]"

text \<open>A request that names a host in its URL.\<close>

definition host_request :: "string \<Rightarrow> string \<Rightarrow> string \<Rightarrow> Request" where
  "host_request m host p =
     \<lparr>Method = m, URL_Path = p, URL_Host = host, ContentLength = 0, Body = None, ctx = []\<rparr>"

text \<open>The router of \<open>TestRouter\<close>.\<close>

definition users_router :: "error + Router" where
  "users_router = HandleRoutes (NewRouter []) [(''GET'', ''/users/:id'', echo_param ''id'')]"

text \<open>
  The router of \<open>TestSubrouter\<close>: each child is the struct that \<open>Subrouter\<close> creates
  for a parent without middleware, with one route registered on it.
\<close>

definition api_router :: "error + Router" where
  "api_router =
     (case HandleRoutes (Router [] [] [] http_NotFound 0)
             [(''GET'', ''/example'', say ''Example'')] of
        Inl e \<Rightarrow> Inl e
      | Inr example \<Rightarrow>
          (case HandleRoutes (Router [] [] [] http_NotFound 0)
                  [(''GET'', ''/users/:id'', echo_path_param ''id'')] of
             Inl e \<Rightarrow> Inl e
           | Inr api \<Rightarrow>
               Inr (Router [] [] [(''www.example.com'', example), (''/api'', api)]
                      http_NotFound 0)))"

text \<open>The router of \<open>TestRouter_Use\<close>, with middleware that leaves a trace.\<close>

definition traced_router :: "error + Router" where
  "traced_router =
     HandleRoutes (Use (NewRouter []) [trace ''A'', trace ''B'']) [(''GET'', ''/'', say ''h'')]"

text \<open>The router of \<open>TestMaxRequestBodySize\<close>.\<close>

definition limited_router :: "error + Router" where
  "limited_router =
     HandleRoutes (NewRouter [WithMaxRequestBodySize 1024])
       [(''POST'', ''/users/:id'', echo_body)]"

text \<open>A request whose body has no declared length, as with chunked transfer.\<close>

definition chunked_request :: "string \<Rightarrow> string \<Rightarrow> string \<Rightarrow> Request" where
  "chunked_request m p d =
     \<lparr>Method = m, URL_Path = p, URL_Host = [], ContentLength = - 1, Body = Some (Raw d),
      ctx = []\<rparr>"

text \<open>The router of \<open>TestWildcardRoutes\<close>.\<close>

definition wildcard_router :: "error + Router" where
  "wildcard_router =
     HandleRoutes (NewRouter []) [(''GET'', ''/validate/*'', echo_param ''path'')]"

text \<open>The router of \<open>TestHandlerFunc\<close>, whose route has no parameter.\<close>

definition hello_router :: "error + Router" where
  "hello_router = HandlerFunc (NewRouter []) ''GET'' ''/hello'' (say ''Hello, world!'')"

text \<open>
  A parent with middleware \<open>A\<close>, its child for \<open>/api\<close>, and the parent then given
  middleware \<open>B\<close> and another NotFoundHandler.  The runtime allocates arrays of
  capacity four, so that the second append writes into the parent's array.
\<close>

definition roomy :: "nat \<Rightarrow> nat \<Rightarrow> nat" where
  "roomy c n = 4"

definition parent_heap :: "heap option" where
  "parent_heap = (case new_router empty_heap of (h, p) \<Rightarrow> Use_at roomy h p [Some (trace ''A'')])"

definition child_heap :: "(heap \<times> nat) option" where
  "child_heap = Option.bind parent_heap (\<lambda>h. Subrouter roomy h 0 ''/api'')"

definition later_mutations :: "mutation list" where
  "later_mutations = [AppendMiddleware [Some (trace ''B'')], ReplaceNotFound (say ''gone'')]"

definition mutated_heap :: "heap option" where
  "mutated_heap = Option.bind child_heap (\<lambda>(h, c). mutate roomy h 0 later_mutations)"

text \<open>The middleware list and the NotFoundHandler of the router at an address.\<close>

definition middleware_at :: "heap \<Rightarrow> nat \<Rightarrow> Middleware option list option" where
  "middleware_at h r = map_option (\<lambda>ro. elems h (obj_middleware ro)) (objs h r)"

definition NotFoundHandler_at :: "heap \<Rightarrow> nat \<Rightarrow> Handler option" where
  "NotFoundHandler_at h r = map_option obj_NotFoundHandler (objs h r)"

section \<open>Facts about dispatch\<close>

named_theorems ev \<open>definitions unfolded when an example is evaluated\<close>

lemmas [ev] = compile_route_def MustCompile_def name_char_def word_char_def group_src_def
  backslash_def plain_char_def meta_char_def match_def FindStringSubmatch_def value_char_def
  HandleRoute_def NewRouter_def NewRequest_def body_guard_def Write_def WriteHeader_def
  NewRecorder_def http_Error_def http_NotFound_def outcome_def say_def echo_param_def
  echo_path_param_def Params_def Value_def WithValue_def ParamsKey_def RouteContextKey_def
  with_match_def claims_def Use_def trace_def

lemma probe_none:
  "\<forall>(k, c) \<in> set subs. \<not> claims k req \<Longrightarrow> probe_subrouters subs req w = None"
  by (induction subs) (auto simp: claims_def)

lemma probe_first:
  "\<forall>(k, c) \<in> set pre. \<not> claims k req \<Longrightarrow> claims key req \<Longrightarrow>
   probe_subrouters (pre @ (key, child) # post) req w =
     Some (ServeHTTP child
             (if key = URL_Host req then req
              else req\<lparr>URL_Path := drop (length key) (URL_Path req)\<rparr>) w)"
  by (induction pre) (auto simp: claims_def)

lemma serve_routes_none:
  "\<forall>rt \<in> set rts. method' rt \<noteq> Method req \<or> match rt (URL_Path req) = Inr None \<Longrightarrow>
   serve_routes rts mws nf mm req w =
     (if mm \<or> (\<exists>rt \<in> set rts. method' rt \<noteq> Method req)
      then Inr (http_Error w ''Method not allowed'' 405)
      else Inr (nf req w))"
  by (induction rts arbitrary: mm) auto

lemma serve_routes_first:
  "\<forall>rt \<in> set pre. method' rt \<noteq> Method req \<or> match rt (URL_Path req) = Inr None \<Longrightarrow>
   method' route = Method req \<Longrightarrow> match route (URL_Path req) = Inr (Some ps) \<Longrightarrow>
   serve_routes (pre @ route # post) mws nf mm req w =
     Inr (wrap_middleware (length mws) mws (handler route) (with_match req ps route) w)"
  by (induction pre arbitrary: mm) (auto simp: with_match_def)

lemma wrap_middleware_take:
  "n \<le> length mws \<Longrightarrow> wrap_middleware n mws h = foldr (\<lambda>m next. m next) (take n mws) h"
proof (induction n arbitrary: h)
  case 0
  then show ?case by simp
next
  case (Suc n)
  then have "take (Suc n) mws = take n mws @ [mws ! n]"
    by (simp add: take_Suc_conv_app_nth)
  with Suc show ?case by simp
qed

lemma ServeHTTP_unclaimed:
  "body_guard (MaxRequestBodySize r) req = Some req1 \<Longrightarrow>
   \<forall>(k, c) \<in> set (subrouters r). \<not> claims k req1 \<Longrightarrow>
   ServeHTTP r req w = serve_routes (routes r) (middleware r) (NotFoundHandler r) False req1 w"
  by (cases r) (simp add: probe_none)

lemma body_guard_same:
  "body_guard mx req = Some req1 \<Longrightarrow>
   Method req1 = Method req \<and> URL_Path req1 = URL_Path req \<and> URL_Host req1 = URL_Host req
   \<and> ctx req1 = ctx req"
  by (auto simp: body_guard_def split: option.splits if_splits)

lemma routes_split:
  "i < length rts \<Longrightarrow> \<forall>j<i. P (rts ! j) \<Longrightarrow>
   rts = take i rts @ rts ! i # drop (Suc i) rts \<and> (\<forall>rt \<in> set (take i rts). P rt)"
  by (auto simp: id_take_nth_drop in_set_conv_nth)

text \<open>
  The router's own table is reached when the guard admits the request and no child
  claims it; the route at the least index whose method and pattern both match is then
  the one served.
\<close>

lemma ServeHTTP_selected:
  assumes "body_guard (MaxRequestBodySize r) req = Some req1"
    and "\<forall>(k, c) \<in> set (subrouters r). \<not> claims k req1"
    and "i < length (routes r)"
    and "method' (routes r ! i) = Method req"
    and "match (routes r ! i) (URL_Path req) = Inr (Some ps)"
    and "\<forall>j<i. method' (routes r ! j) \<noteq> Method req
               \<or> match (routes r ! j) (URL_Path req) = Inr None"
  shows "ServeHTTP r req w =
           Inr (wrap_middleware (length (middleware r)) (middleware r) (handler (routes r ! i))
                  (with_match req1 ps (routes r ! i)) w)"
proof -
  let ?P = "\<lambda>rt. method' rt \<noteq> Method req1 \<or> match rt (URL_Path req1) = Inr None"
  let ?out = "Inr (wrap_middleware (length (middleware r)) (middleware r)
                     (handler (routes r ! i)) (with_match req1 ps (routes r ! i)) w)"
  have same: "Method req1 = Method req" "URL_Path req1 = URL_Path req"
    using body_guard_same [OF assms(1)] by simp_all
  have "routes r = take i (routes r) @ routes r ! i # drop (Suc i) (routes r)
        \<and> (\<forall>rt \<in> set (take i (routes r)). ?P rt)"
    using routes_split [of i "routes r" ?P] assms(3,6) same by simp
  then obtain split: "routes r = take i (routes r) @ routes r ! i # drop (Suc i) (routes r)"
    and pre: "\<forall>rt \<in> set (take i (routes r)). ?P rt"
    by blast
  have "serve_routes (take i (routes r) @ routes r ! i # drop (Suc i) (routes r))
          (middleware r) (NotFoundHandler r) False req1 w = ?out"
    using pre assms(4,5) same by (intro serve_routes_first) simp_all
  with split have "serve_routes (routes r) (middleware r) (NotFoundHandler r) False req1 w = ?out"
    by simp
  then show ?thesis
    using ServeHTTP_unclaimed [OF assms(1,2)] by simp
qed

lemma users_id:
  "compile_route ''GET'' ''/users/:id'' h =
     Inr \<lparr>path = map Lit ''/users/'' @ [Group], method' = ''GET'', params = [''id''],
          template = ''/users/:id'', handler = h\<rparr>"
  by (simp add: ev)

lemma users_me:
  "compile_route ''GET'' ''/users/me'' h =
     Inr \<lparr>path = map Lit ''/users/me'', method' = ''GET'', params = [],
          template = ''/users/me'', handler = h\<rparr>"
  by (simp add: ev)

lemma root_route:
  "compile_route ''GET'' ''/'' h =
     Inr \<lparr>path = [Lit CHR ''/''], method' = ''GET'', params = [],
          template = ''/'', handler = h\<rparr>"
  by (simp add: ev)

lemma users_id_post:
  "compile_route ''POST'' ''/users/:id'' h =
     Inr \<lparr>path = map Lit ''/users/'' @ [Group], method' = ''POST'', params = [''id''],
          template = ''/users/:id'', handler = h\<rparr>"
  by (simp add: ev)

lemma users_example:
  "compile_route ''GET'' ''/example'' h =
     Inr \<lparr>path = map Lit ''/example'', method' = ''GET'', params = [],
          template = ''/example'', handler = h\<rparr>"
  by (simp add: ev)

lemma precedence_router_eq:
  "precedence_router =
     Inr (Router [\<lparr>path = map Lit ''/users/'' @ [Group], method' = ''POST'', params = [''id''],
                    template = ''/users/:id'', handler = say ''posted''\<rparr>,
                  \<lparr>path = map Lit ''/users/'' @ [Group], method' = ''GET'', params = [''id''],
                    template = ''/users/:id'', handler = say ''first''\<rparr>,
                  \<lparr>path = map Lit ''/users/me'', method' = ''GET'', params = [],
                    template = ''/users/me'', handler = say ''second''\<rparr>]
            [] [(''/api'', Router [] [] [] http_NotFound 0)] http_NotFound 0)"
  by (simp add: precedence_router_def HandleRoute_def users_id users_id_post users_me
      NewRouter_def with_child_def)

lemma users_router_eq:
  "users_router =
     Inr (Router [\<lparr>path = map Lit ''/users/'' @ [Group], method' = ''GET'', params = [''id''],
                    template = ''/users/:id'', handler = echo_param ''id''\<rparr>]
            [] [] http_NotFound 0)"
  by (simp add: users_router_def HandleRoute_def users_id NewRouter_def)

lemma api_router_eq:
  "api_router =
     Inr (Router [] []
            [(''www.example.com'',
              Router [\<lparr>path = map Lit ''/example'', method' = ''GET'', params = [],
                        template = ''/example'', handler = say ''Example''\<rparr>]
                [] [] http_NotFound 0),
             (''/api'',
              Router [\<lparr>path = map Lit ''/users/'' @ [Group], method' = ''GET'',
                        params = [''id''], template = ''/users/:id'',
                        handler = echo_path_param ''id''\<rparr>]
                [] [] http_NotFound 0)]
            http_NotFound 0)"
  by (simp add: api_router_def HandleRoute_def users_id users_example)

lemma traced_router_eq:
  "traced_router =
     Inr (Router [\<lparr>path = [Lit CHR ''/''], method' = ''GET'', params = [],
                    template = ''/'', handler = say ''h''\<rparr>]
            [trace ''A'', trace ''B''] [] http_NotFound 0)"
  by (simp add: traced_router_def HandleRoute_def root_route NewRouter_def Use_def)

lemma limited_router_eq:
  "limited_router =
     Inr (Router [\<lparr>path = map Lit ''/users/'' @ [Group], method' = ''POST'', params = [''id''],
                    template = ''/users/:id'', handler = echo_body\<rparr>]
            [] [] http_NotFound 1024)"
  by (simp add: limited_router_def HandleRoute_def users_id_post NewRouter_def
      WithMaxRequestBodySize_def)

lemma match_parameterless:
  "params r = [] \<Longrightarrow>
   match r p = (if FindStringSubmatch (path r) p = None then Inr None else Inr (Some Map.empty))"
  by (auto simp: match_def split: option.splits)

lemma Code_http_Error: "\<not> wroteHeader w \<Longrightarrow> Code (http_Error w msg code) = code"
  by (simp add: http_Error_def Write_def WriteHeader_def)

lemma limited_small:
  "length d \<le> 1024 \<Longrightarrow>
   outcome (ServeHTTP (projr limited_router) (NewRequest ''POST'' ''/users/123'' (Some d)) NewRecorder)
     = Inr (200, d)"
  by (simp add: limited_router_eq ev echo_body_def)

lemma limited_chunked:
  "1024 < length d \<Longrightarrow>
   outcome (ServeHTTP (projr limited_router) (chunked_request ''POST'' ''/users/123'' d) NewRecorder)
     = Inr (413, [])"
  by (simp add: limited_router_eq ev echo_body_def chunked_request_def)

section \<open>Facts about patterns and matching\<close>

subsection \<open>The matcher and the texts a pattern describes\<close>

lemma star_greedy_sound:
  "star_greedy c k s = Some r \<Longrightarrow> \<exists>n s'. s = replicate n c @ s' \<and> k s' = Some r"
proof (induction s)
  case Nil
  then show ?case by (auto intro: exI [of _ 0])
next
  case (Cons x xs)
  show ?case
  proof (cases "x = c \<and> star_greedy c k xs = Some r")
    case True
    with Cons.IH obtain n s' where "xs = replicate n c @ s'" "k s' = Some r"
      by blast
    with True have "x # xs = replicate (Suc n) c @ s' \<and> k s' = Some r"
      by simp
    then show ?thesis by blast
  next
    case False
    with Cons.prems have "k (x # xs) = Some r"
      by (auto split: if_splits option.splits)
    then have "x # xs = replicate 0 c @ (x # xs) \<and> k (x # xs) = Some r"
      by simp
    then show ?thesis by blast
  qed
qed

lemma star_greedy_complete:
  "k s' \<noteq> None \<Longrightarrow> star_greedy c k (replicate n c @ s') \<noteq> None"
proof (induction n)
  case 0
  then show ?case by (cases s') (auto split: option.splits)
next
  case (Suc n)
  then show ?case by (auto split: option.splits)
qed

lemma group_greedy_sound:
  "group_greedy k acc s = Some r \<Longrightarrow>
   \<exists>v rest. s = v @ rest \<and> list_all value_char v \<and> acc @ v \<noteq> [] \<and> k (acc @ v) rest = Some r"
proof (induction s arbitrary: acc)
  case Nil
  then show ?case by (auto split: if_splits)
next
  case (Cons x xs)
  show ?case
  proof (cases "value_char x \<and> group_greedy k (acc @ [x]) xs = Some r")
    case True
    with Cons.IH [of "acc @ [x]"] obtain v rest where
      "xs = v @ rest" "list_all value_char v" "k ((acc @ [x]) @ v) rest = Some r"
      by blast
    with True have "x # xs = (x # v) @ rest \<and> list_all value_char (x # v)
        \<and> acc @ (x # v) \<noteq> [] \<and> k (acc @ (x # v)) rest = Some r"
      by simp
    then show ?thesis by blast
  next
    case False
    with Cons.prems have "acc \<noteq> [] \<and> k acc (x # xs) = Some r"
      by (auto split: if_splits option.splits)
    then have "x # xs = [] @ (x # xs) \<and> list_all value_char [] \<and> acc @ [] \<noteq> []
        \<and> k (acc @ []) (x # xs) = Some r"
      by simp
    then show ?thesis by blast
  qed
qed

lemma group_greedy_complete:
  "list_all value_char v \<Longrightarrow> acc @ v \<noteq> [] \<Longrightarrow> k (acc @ v) rest \<noteq> None \<Longrightarrow>
   group_greedy k acc (v @ rest) \<noteq> None"
proof (induction v arbitrary: acc)
  case Nil
  then show ?case by (cases rest) (auto split: option.splits)
next
  case (Cons x v)
  from Cons.prems have "group_greedy k (acc @ [x]) (v @ rest) \<noteq> None"
    by (intro Cons.IH) simp_all
  with Cons.prems show ?case by (auto split: option.splits)
qed

lemma match_items_sound:
  "match_items its s = Some vs \<Longrightarrow> fills its vs s"
proof (induction its arbitrary: s vs)
  case Nil
  then show ?case by (auto split: if_splits intro: fills.intros)
next
  case (Cons it its)
  show ?case
  proof (cases it)
    case (Lit c)
    with Cons show ?thesis
      by (auto split: list.splits if_splits intro: fills.intros)
  next
    case (Star c)
    with Cons.prems obtain n s' where "s = replicate n c @ s'" "match_items its s' = Some vs"
      using star_greedy_sound [of c "match_items its" s vs] by auto
    with Cons.IH Star show ?thesis
      by (auto intro: fills.intros)
  next
    case Group
    let ?k = "\<lambda>cap rest. map_option ((#) cap) (match_items its rest)"
    from Cons.prems Group have "group_greedy ?k [] s = Some vs"
      by simp
    from group_greedy_sound [OF this] obtain v rest where
      v: "s = v @ rest" "list_all value_char v" "v \<noteq> []"
      and k: "map_option ((#) v) (match_items its rest) = Some vs"
      by auto
    from k obtain vs' where "match_items its rest = Some vs'" "vs = v # vs'"
      by auto
    with Cons.IH v Group show ?thesis
      by (auto intro: fills.intros simp: group_value_def)
  qed
qed

lemma match_items_complete:
  "fills its vs s \<Longrightarrow> match_items its s \<noteq> None"
proof (induction rule: fills.induct)
  case fills_Nil
  then show ?case by simp
next
  case (fills_Lit its vs s c)
  then show ?case by simp
next
  case (fills_Star its vs s c n)
  then show ?case by (simp add: star_greedy_complete)
next
  case (fills_Group its vs s v)
  let ?k = "\<lambda>cap rest. map_option ((#) cap) (match_items its rest)"
  from fills_Group have "group_greedy ?k [] (v @ s) \<noteq> None"
    by (intro group_greedy_complete) (auto simp: group_value_def)
  then show ?case by simp
qed

lemma fills_groups:
  "fills its vs s \<Longrightarrow> length vs = ngroups its \<and> list_all group_value vs"
  by (induction rule: fills.induct) (auto simp: ngroups_def)

lemma match_items_groups:
  "match_items its s = Some vs \<Longrightarrow> length vs = ngroups its"
  using fills_groups match_items_sound by blast

subsection \<open>The parameter loop\<close>

lemma assign_params_zip:
  "i + length names < length mt \<Longrightarrow>
   assign_params names i mt ps = Inr (ps ++ map_of (rev (zip names (drop (Suc i) mt))))"
proof (induction names arbitrary: i ps)
  case Nil
  then show ?case by simp
next
  case (Cons name names)
  then have d: "drop (Suc i) mt = mt ! Suc i # drop (Suc (Suc i)) mt"
    by (simp add: Cons_nth_drop_Suc)
  from Cons.prems have "assign_params names (Suc i) mt (ps(name \<mapsto> mt ! Suc i)) =
      Inr (ps(name \<mapsto> mt ! Suc i) ++ map_of (rev (zip names (drop (Suc (Suc i)) mt))))"
    by (intro Cons.IH) simp
  with Cons.prems d show ?case
    by (simp add: map_add_upd_left map_add_assoc [symmetric])
qed

lemma match_result:
  "length (params r) \<le> ngroups (path r) \<Longrightarrow>
   match r p =
     (case match_items (path r) p of
        None \<Rightarrow> Inr None
      | Some vs \<Rightarrow> Inr (Some (zip_params (params r) vs)))"
proof (cases "match_items (path r) p")
  case None
  then show ?thesis by (simp add: match_def FindStringSubmatch_def)
next
  case (Some vs)
  assume "length (params r) \<le> ngroups (path r)"
  with Some have "0 + length (params r) < length (p # vs)"
    using match_items_groups [of "path r" p vs] by simp
  from assign_params_zip [OF this, of Map.empty] Some show ?thesis
    by (simp add: match_def FindStringSubmatch_def zip_params_def)
qed

subsection \<open>From the template to the pattern\<close>

lemma replace_param_tokens_render:
  "replace_param_tokens t = (render (tokens t), seg_names (tokens t))"
  by (induction t rule: tokens.induct) (simp_all)

lemma count_group_src: "count_list group_src CHR ''('' = 1"
  by (simp add: group_src_def backslash_def)

lemma plain_not_paren: "plain_char c \<Longrightarrow> c \<noteq> CHR ''('' \<and> c \<noteq> CHR ''*''"
  by (auto simp: plain_char_def meta_char_def)

lemma parse_items_groups:
  "parse_items s = Some its \<Longrightarrow> ngroups its = count_list s CHR ''(''"
proof (induction s arbitrary: its rule: parse_items.induct)
  case 1
  then show ?case by (simp add: ngroups_def)
next
  case (2 c cs)
  show ?case
  proof (cases "c = CHR ''(''")
    case True
    with "2.prems" have t: "take 8 cs = tl group_src"
      and "\<exists>its'. parse_items (drop 8 cs) = Some its' \<and> its = Group # its'"
      by (auto split: if_splits)
    then obtain its' where its': "parse_items (drop 8 cs) = Some its'" "its = Group # its'"
      by blast
    from "2.IH"(1) [OF True t its'(1)] have "ngroups its' = count_list (drop 8 cs) CHR ''(''" .
    moreover have "count_list cs CHR ''('' =
        count_list (take 8 cs) CHR ''('' + count_list (drop 8 cs) CHR ''(''"
      by (metis append_take_drop_id count_list_append)
    moreover have "count_list (tl group_src) CHR ''('' = 0"
      by (simp add: group_src_def backslash_def)
    ultimately show ?thesis
      using True t its'(2) by (simp add: ngroups_def)
  next
    case False
    with "2.prems" have plain: "plain_char c"
      by (auto split: if_splits)
    show ?thesis
    proof (cases cs)
      case Nil
      with "2.prems" False plain show ?thesis
        by (auto simp: ngroups_def)
    next
      case (Cons d ds)
      show ?thesis
      proof (cases "d = CHR ''*''")
        case True
        with "2.prems" False plain Cons obtain its' where
          "parse_items ds = Some its'" "its = Star c # its'"
          by auto
        with "2.IH"(2) [OF False plain Cons True] True Cons False show ?thesis
          by (simp add: ngroups_def)
      next
        case d: False
        with "2.prems" False plain Cons obtain its' where
          "parse_items (d # ds) = Some its'" "its = Lit c # its'"
          by auto
        with "2.IH"(3) [OF False plain Cons d] Cons False show ?thesis
          by (simp add: ngroups_def)
      qed
    qed
  qed
qed

lemma render_groups: "length (seg_names segs) \<le> count_list (render segs) CHR ''(''"
  by (induction segs rule: render.induct) (simp_all add: count_group_src)

lemma render_first:
  "list_all plain_char (literal_chars segs) \<Longrightarrow> render segs = d # ds \<Longrightarrow> d \<noteq> CHR ''*''"
  by (induction segs rule: render.induct) (auto simp: group_src_def dest: plain_not_paren)

lemma parse_items_group_src:
  "parse_items (group_src @ s) = map_option ((#) Group) (parse_items s)"
  by (simp add: group_src_def)

lemma parse_items_render:
  "list_all plain_char (literal_chars segs) \<Longrightarrow>
   parse_items (render segs) = Some (map seg_item segs)"
proof (induction segs rule: render.induct)
  case 1
  then show ?case by simp
next
  case (2 c segs)
  then have plain: "plain_char c" and rest: "list_all plain_char (literal_chars segs)"
    by simp_all
  show ?case
  proof (cases "render segs")
    case Nil
    with 2 rest plain show ?thesis
      by (auto dest: plain_not_paren)
  next
    case (Cons d ds)
    with render_first [OF rest] have "d \<noteq> CHR ''*''"
      by simp
    with 2 rest plain Cons show ?thesis
      by (auto dest: plain_not_paren)
  qed
next
  case (3 n segs)
  then show ?case by (simp add: parse_items_group_src)
qed

lemma MustCompile_anchored:
  "MustCompile (''^'' @ s @ ''$'') =
     (case parse_items s of None \<Rightarrow> Inl PatternNotModelled | Some its \<Rightarrow> Inr its)"
  by (simp add: MustCompile_def butlast_append)

lemma compile_route_tokens:
  "compile_route m t h =
     (case MustCompile (''^'' @ render (tokens t) @ ''$'') of
        Inl e \<Rightarrow> Inl e
      | Inr re \<Rightarrow>
          Inr \<lparr>path = re, method' = m, params = seg_names (tokens t), template = t,
               handler = h\<rparr>)"
  by (simp add: compile_route_def replace_param_tokens_render)

lemma compile_route_groups:
  assumes "compile_route m t h = Inr route"
  shows "length (params route) \<le> ngroups (path route)"
proof -
  from assms obtain its where its: "parse_items (render (tokens t)) = Some its"
    and route: "path route = its" "params route = seg_names (tokens t)"
    unfolding compile_route_tokens MustCompile_anchored
    by (auto split: option.splits)
  from parse_items_groups [OF its] render_groups [of "tokens t"] route show ?thesis
    by simp
qed

lemma compile_route_plain:
  "list_all plain_char (literal_chars (tokens t)) \<Longrightarrow>
   compile_route m t h =
     Inr \<lparr>path = map seg_item (tokens t), method' = m, params = seg_names (tokens t),
          template = t, handler = h\<rparr>"
  unfolding compile_route_tokens MustCompile_anchored by (simp add: parse_items_render)

lemma match_compiled:
  assumes "compile_route m t h = Inr route"
  shows "match route p =
     (case match_items (path route) p of
        None \<Rightarrow> Inr None
      | Some vs \<Rightarrow> Inr (Some (zip_params (params route) vs)))"
  using compile_route_groups [OF assms] by (rule match_result)

lemma tokens_users_id:
  "tokens ''/users/:id'' =
     [Chr CHR ''/'', Chr CHR ''u'', Chr CHR ''s'', Chr CHR ''e'', Chr CHR ''r'', Chr CHR ''s'',
      Chr CHR ''/'', Param ''id'']"
  by (simp add: name_char_def word_char_def)

lemma validate_star:
  "compile_route ''GET'' ''/validate/*'' h =
     Inr \<lparr>path = map Lit ''/validate'' @ [Star CHR ''/''], method' = ''GET'', params = [],
          template = ''/validate/*'', handler = h\<rparr>"
  by (simp add: ev)

lemma wildcard_router_eq:
  "wildcard_router =
     Inr (Router [\<lparr>path = map Lit ''/validate'' @ [Star CHR ''/''], method' = ''GET'',
                    params = [], template = ''/validate/*'', handler = echo_param ''path''\<rparr>]
            [] [] http_NotFound 0)"
  by (simp add: wildcard_router_def HandleRoute_def validate_star NewRouter_def)

lemma hello_route:
  "compile_route ''GET'' ''/hello'' h =
     Inr \<lparr>path = map Lit ''/hello'', method' = ''GET'', params = [],
          template = ''/hello'', handler = h\<rparr>"
  by (simp add: ev)

lemma hello_router_eq:
  "hello_router =
     Inr (Router [\<lparr>path = map Lit ''/hello'', method' = ''GET'', params = [],
                    template = ''/hello'', handler = say ''Hello, world!''\<rparr>]
            [] [] http_NotFound 0)"
  by (simp add: hello_router_def HandlerFunc_def HandleRoute_def hello_route NewRouter_def)

lemma Params_with_match: "Params (with_match req ps route) = ps"
  by (simp add: Params_def with_match_def Value_def WithValue_def ParamsKey_def
      RouteContextKey_def)

lemma foo_bar_route:
  "compile_route ''GET'' ''/foo/:id/bar/:desc'' h =
     Inr \<lparr>path = map Lit ''/foo/'' @ [Group] @ map Lit ''/bar/'' @ [Group], method' = ''GET'',
          params = [''id'', ''desc''], template = ''/foo/:id/bar/:desc'', handler = h\<rparr>"
  by (simp add: ev)

section \<open>Facts about routers behind pointers\<close>

subsection \<open>Appending to a slice\<close>

lemma go_append_elems:
  assumes "slice_ok h s" and "go_append grow h s xs = (h1, s1)"
  shows "elems h1 s1 = elems h s @ xs"
  using assms
  by (auto simp: go_append_def slice_ok_def elems_def Let_def
      split: option.splits if_splits)

lemma go_append_slice_ok:
  assumes "slice_ok h s" and "go_append grow h s xs = (h1, s1)"
  shows "slice_ok h1 s1"
  using assms
  by (auto simp: go_append_def slice_ok_def elems_def Let_def
      split: option.splits if_splits)

lemma go_append_objs:
  assumes "go_append grow h s xs = (h1, s1)"
  shows "objs h1 = objs h \<and> next_obj h1 = next_obj h \<and> next_arr h \<le> next_arr h1"
  using assms
  by (auto simp: go_append_def Let_def split: option.splits if_splits)

lemma go_append_base:
  assumes "go_append grow h s xs = (h1, s1)"
  shows "base s1 = base s \<or> base s1 = Some (next_arr h)"
  using assms
  by (auto simp: go_append_def Let_def split: option.splits if_splits)

lemma go_append_frame:
  assumes "slice_ok h t" and "base t = None \<or> base t \<noteq> base s" and "go_append grow h s xs = (h1, s1)"
  shows "elems h1 t = elems h t \<and> slice_ok h1 t"
  using assms
  by (auto simp: go_append_def slice_ok_def elems_def Let_def
      split: option.splits if_splits)

lemma go_append_empty:
  "go_append grow h \<lparr>base = None, len = 0, cap = 0\<rparr> [] = (h, \<lparr>base = None, len = 0, cap = 0\<rparr>)"
  by (simp add: go_append_def)

lemma slice_ok_empty: "slice_ok h \<lparr>base = None, len = 0, cap = 0\<rparr>"
  by (simp add: slice_ok_def)

lemma slice_ok_objs: "slice_ok (h\<lparr>objs := m\<rparr>) s = slice_ok h s"
  by (simp add: slice_ok_def split: option.splits)

lemma elems_objs: "elems (h\<lparr>objs := m\<rparr>) s = elems h s"
  by (simp add: elems_def split: option.splits)

lemma slice_ok_next_obj: "slice_ok (h\<lparr>next_obj := n\<rparr>) s = slice_ok h s"
  by (simp add: slice_ok_def split: option.splits)

lemma elems_next_obj: "elems (h\<lparr>next_obj := n\<rparr>) s = elems h s"
  by (simp add: elems_def split: option.splits)


lemma slice_ok_base_less: "slice_ok h s \<Longrightarrow> base s = Some a \<Longrightarrow> a < next_arr h"
  by (simp add: slice_ok_def)

subsection \<open>The operations keep the heap well formed and touch one router\<close>

lemma Use_at_result:
  assumes ok: "heap_ok h" and use: "Use_at grow h r mws = Some h1"
  shows "\<exists>ro s1. objs h r = Some ro \<and> objs h1 = (objs h)(r \<mapsto> ro\<lparr>obj_middleware := s1\<rparr>)
           \<and> next_obj h1 = next_obj h \<and> next_arr h \<le> next_arr h1
           \<and> slice_ok h1 s1 \<and> elems h1 s1 = elems h (obj_middleware ro) @ mws
           \<and> (base s1 = base (obj_middleware ro) \<or> base s1 = Some (next_arr h))
           \<and> (\<forall>t. slice_ok h t \<and> (base t = None \<or> base t \<noteq> base (obj_middleware ro)) \<longrightarrow>
                  elems h1 t = elems h t \<and> slice_ok h1 t)"
proof -
  from use obtain ro where ro: "objs h r = Some ro"
    by (auto simp: Use_at_def split: option.splits)
  obtain h' s1 where app: "go_append grow h (obj_middleware ro) mws = (h', s1)"
    by (cases "go_append grow h (obj_middleware ro) mws")
  with use ro have h1: "h1 = h'\<lparr>objs := (objs h')(r \<mapsto> ro\<lparr>obj_middleware := s1\<rparr>)\<rparr>"
    by (simp add: Use_at_def)
  from ok ro have sok: "slice_ok h (obj_middleware ro)"
    by (auto simp: heap_ok_def)
  note o = go_append_objs [OF app]
  have "objs h1 = (objs h)(r \<mapsto> ro\<lparr>obj_middleware := s1\<rparr>)"
    using h1 o by simp
  moreover have "next_obj h1 = next_obj h" "next_arr h \<le> next_arr h1"
    using h1 o by simp_all
  moreover have "slice_ok h1 s1"
    using go_append_slice_ok [OF sok app] h1 by (simp add: slice_ok_objs)
  moreover have "elems h1 s1 = elems h (obj_middleware ro) @ mws"
    using go_append_elems [OF sok app] h1 by (simp add: elems_objs)
  moreover have "base s1 = base (obj_middleware ro) \<or> base s1 = Some (next_arr h)"
    by (rule go_append_base [OF app])
  moreover have "\<forall>t. slice_ok h t \<and> (base t = None \<or> base t \<noteq> base (obj_middleware ro)) \<longrightarrow>
                  elems h1 t = elems h t \<and> slice_ok h1 t"
    using go_append_frame [OF _ _ app] h1 by (simp add: elems_objs slice_ok_objs)
  ultimately show ?thesis
    using ro by blast
qed

lemma Use_at_heap_ok:
  assumes ok: "heap_ok h" and use: "Use_at grow h r mws = Some h1"
  shows "heap_ok h1"
proof -
  from Use_at_result [OF ok use] obtain ro s1 where
    ro: "objs h r = Some ro"
    and o1: "objs h1 = (objs h)(r \<mapsto> ro\<lparr>obj_middleware := s1\<rparr>)"
    and n: "next_obj h1 = next_obj h" "next_arr h \<le> next_arr h1"
    and s1: "slice_ok h1 s1"
    and b: "base s1 = base (obj_middleware ro) \<or> base s1 = Some (next_arr h)"
    and fr: "\<forall>t. slice_ok h t \<and> (base t = None \<or> base t \<noteq> base (obj_middleware ro)) \<longrightarrow>
                  elems h1 t = elems h t \<and> slice_ok h1 t"
    by blast
  have other: "slice_ok h1 (obj_middleware ro')" if "objs h r' = Some ro'" "r' \<noteq> r" for r' ro'
  proof -
    from ok that have "slice_ok h (obj_middleware ro')"
      by (auto simp: heap_ok_def)
    moreover have "base (obj_middleware ro') = None
        \<or> base (obj_middleware ro') \<noteq> base (obj_middleware ro)"
      using ok that ro unfolding heap_ok_def by (metis option.exhaust)
    ultimately show ?thesis
      using fr by blast
  qed
  have dom: "dom (objs h1) = dom (objs h)"
    using o1 ro by auto
  have part1: "r' < next_obj h1 \<and> slice_ok h1 (obj_middleware ro')
         \<and> (\<forall>k c. obj_subrouters ro' k = Some c \<longrightarrow> r' < c \<and> c \<in> dom (objs h1))"
    if "objs h1 r' = Some ro'" for r' ro'
  proof (cases "r' = r")
    case True
    with that o1 have "ro' = ro\<lparr>obj_middleware := s1\<rparr>"
      by simp
    with True ok ro s1 n dom show ?thesis
      unfolding heap_ok_def by auto
  next
    case False
    with that o1 have "objs h r' = Some ro'"
      by simp
    with False ok other n dom show ?thesis
      unfolding heap_ok_def by auto
  qed
  have bases: "base (obj_middleware o2) \<noteq> Some a"
    if "objs h1 r1 = Some o1" "objs h1 r2 = Some o2" "r1 \<noteq> r2"
      "base (obj_middleware o1) = Some a" for r1 r2 o1 o2 a
  proof -
    have old: "base (obj_middleware x) \<noteq> Some (next_arr h)" if "objs h q = Some x" for q x
      using ok that slice_ok_base_less [of h "obj_middleware x" "next_arr h"]
      unfolding heap_ok_def by auto
    show ?thesis
    proof (cases "r1 = r")
      case True
      with that o1 have o1': "o1 = ro\<lparr>obj_middleware := s1\<rparr>" and o2': "objs h r2 = Some o2"
        by auto
      from b show ?thesis
      proof
        assume "base s1 = base (obj_middleware ro)"
        with o1' that(4) have "base (obj_middleware ro) = Some a"
          by simp
        with ok ro o2' that(3) True show ?thesis
          unfolding heap_ok_def by blast
      next
        assume "base s1 = Some (next_arr h)"
        with o1' that(4) old [OF o2'] show ?thesis
          by simp
      qed
    next
      case False
      with that o1 have o1': "objs h r1 = Some o1"
        by simp
      show ?thesis
      proof (cases "r2 = r")
        case True
        with that o1 have o2': "o2 = ro\<lparr>obj_middleware := s1\<rparr>"
          by simp
        from b show ?thesis
        proof
          assume "base s1 = base (obj_middleware ro)"
          with o2' ok ro o1' that(3,4) True show ?thesis
            unfolding heap_ok_def by (metis RouterObj.select_convs(2) RouterObj.surjective RouterObj.update_convs(2))
        next
          assume "base s1 = Some (next_arr h)"
          with o2' that(4) old [OF o1'] show ?thesis
            by auto
        qed
      next
        case r2: False
        with that o1 have "objs h r2 = Some o2"
          by simp
        with ok o1' that(3,4) show ?thesis
          unfolding heap_ok_def by blast
      qed
    qed
  qed
  show ?thesis
    unfolding heap_ok_def using part1 bases by blast
qed

lemma Use_at_frame:
  assumes ok: "heap_ok h" and use: "Use_at grow h r mws = Some h1"
    and c: "objs h c = Some co" "c \<noteq> r"
  shows "objs h1 c = Some co \<and> elems h1 (obj_middleware co) = elems h (obj_middleware co)"
proof -
  from Use_at_result [OF ok use] obtain ro s1 where
    ro: "objs h r = Some ro"
    and o1: "objs h1 = (objs h)(r \<mapsto> ro\<lparr>obj_middleware := s1\<rparr>)"
    and fr: "\<forall>t. slice_ok h t \<and> (base t = None \<or> base t \<noteq> base (obj_middleware ro)) \<longrightarrow>
                  elems h1 t = elems h t \<and> slice_ok h1 t"
    by blast
  from ok c have "slice_ok h (obj_middleware co)"
    by (auto simp: heap_ok_def)
  moreover have "base (obj_middleware co) = None
      \<or> base (obj_middleware co) \<noteq> base (obj_middleware ro)"
    using ok c ro unfolding heap_ok_def by (metis option.exhaust)
  ultimately have "elems h1 (obj_middleware co) = elems h (obj_middleware co)"
    using fr by blast
  with o1 c show ?thesis
    by simp
qed

lemma set_NotFoundHandler_result:
  assumes "set_NotFoundHandler h r f = Some h1"
  shows "\<exists>ro. objs h r = Some ro
           \<and> h1 = h\<lparr>objs := (objs h)(r \<mapsto> ro\<lparr>obj_NotFoundHandler := f\<rparr>)\<rparr>"
  using assms by (auto simp: set_NotFoundHandler_def split: option.splits)

lemma set_NotFoundHandler_heap_ok:
  assumes ok: "heap_ok h" and set: "set_NotFoundHandler h r f = Some h1"
  shows "heap_ok h1"
proof -
  from set_NotFoundHandler_result [OF set] obtain ro where
    ro: "objs h r = Some ro"
    and h1: "h1 = h\<lparr>objs := (objs h)(r \<mapsto> ro\<lparr>obj_NotFoundHandler := f\<rparr>)\<rparr>"
    by blast
  have dom: "dom (objs h1) = dom (objs h)"
    using h1 ro by auto
  have part1: "r' < next_obj h1 \<and> slice_ok h1 (obj_middleware ro')
         \<and> (\<forall>k c. obj_subrouters ro' k = Some c \<longrightarrow> r' < c \<and> c \<in> dom (objs h1))"
    if "objs h1 r' = Some ro'" for r' ro'
  proof (cases "r' = r")
    case True
    with that h1 have "ro' = ro\<lparr>obj_NotFoundHandler := f\<rparr>"
      by simp
    with True ok ro dom show ?thesis
      unfolding heap_ok_def by (auto simp: h1 slice_ok_objs)
  next
    case False
    with that h1 have "objs h r' = Some ro'"
      by simp
    with ok dom show ?thesis
      unfolding heap_ok_def by (auto simp: h1 slice_ok_objs)
  qed
  have same: "\<exists>x. objs h q = Some x \<and> obj_middleware x = obj_middleware y"
    if "objs h1 q = Some y" for q y
    using that ro by (cases "q = r") (auto simp: h1)
  have bases: "base (obj_middleware o2) \<noteq> Some a"
    if "objs h1 r1 = Some o1" "objs h1 r2 = Some o2" "r1 \<noteq> r2"
      "base (obj_middleware o1) = Some a" for r1 r2 o1 o2 a
  proof -
    from same [OF that(1)] obtain x1 where x1: "objs h r1 = Some x1"
      "obj_middleware x1 = obj_middleware o1"
      by blast
    from same [OF that(2)] obtain x2 where x2: "objs h r2 = Some x2"
      "obj_middleware x2 = obj_middleware o2"
      by blast
    from ok x1 x2 that(3,4) show ?thesis
      unfolding heap_ok_def by metis
  qed
  show ?thesis
    unfolding heap_ok_def using part1 bases by blast
qed

lemma set_NotFoundHandler_frame:
  assumes set: "set_NotFoundHandler h r f = Some h1"
    and c: "objs h c = Some co" "c \<noteq> r"
  shows "objs h1 c = Some co \<and> elems h1 (obj_middleware co) = elems h (obj_middleware co)"
  using set_NotFoundHandler_result [OF set] c by (auto simp: elems_objs)

text \<open>Mutations of one router leave every other router as it was.\<close>

lemma mutate_frame:
  assumes "heap_ok h" and "mutate grow h p ms = Some h2"
    and "objs h c = Some co" and "c \<noteq> p"
  shows "heap_ok h2 \<and> objs h2 c = Some co
         \<and> elems h2 (obj_middleware co) = elems h (obj_middleware co)"
  using assms
proof (induction ms arbitrary: h)
  case Nil
  then show ?case by simp
next
  case (Cons m ms)
  show ?case
  proof (cases m)
    case (AppendMiddleware mws)
    with Cons.prems obtain h1 where h1: "Use_at grow h p mws = Some h1"
      and rest: "mutate grow h1 p ms = Some h2"
      by (auto split: option.splits)
    from Use_at_frame [OF Cons.prems(1) h1 Cons.prems(3,4)]
    have f: "objs h1 c = Some co" "elems h1 (obj_middleware co) = elems h (obj_middleware co)"
      by simp_all
    from Cons.IH [OF Use_at_heap_ok [OF Cons.prems(1) h1] rest f(1) Cons.prems(4)] f(2)
    show ?thesis by simp
  next
    case (ReplaceNotFound f)
    with Cons.prems obtain h1 where h1: "set_NotFoundHandler h p f = Some h1"
      and rest: "mutate grow h1 p ms = Some h2"
      by (auto split: option.splits)
    from set_NotFoundHandler_frame [OF h1 Cons.prems(3,4)]
    have f: "objs h1 c = Some co" "elems h1 (obj_middleware co) = elems h (obj_middleware co)"
      by simp_all
    from Cons.IH [OF set_NotFoundHandler_heap_ok [OF Cons.prems(1) h1] rest f(1) Cons.prems(4)] f(2)
    show ?thesis by simp
  qed
qed

text \<open>Mutations of a router do not change its children.\<close>

lemma mutate_subrouters:
  assumes "heap_ok h" and "mutate grow h p ms = Some h2" and "objs h p = Some po"
  shows "\<exists>po2. objs h2 p = Some po2 \<and> obj_subrouters po2 = obj_subrouters po"
  using assms
proof (induction ms arbitrary: h po)
  case Nil
  then show ?case by simp
next
  case (Cons m ms)
  show ?case
  proof (cases m)
    case (AppendMiddleware mws)
    with Cons.prems obtain h1 where h1: "Use_at grow h p mws = Some h1"
      and rest: "mutate grow h1 p ms = Some h2"
      by (auto split: option.splits)
    from Use_at_result [OF Cons.prems(1) h1] Cons.prems(3) obtain s1 where
      "objs h1 p = Some (po\<lparr>obj_middleware := s1\<rparr>)"
      by auto
    from Cons.IH [OF Use_at_heap_ok [OF Cons.prems(1) h1] rest this]
    show ?thesis by simp
  next
    case (ReplaceNotFound f)
    with Cons.prems obtain h1 where h1: "set_NotFoundHandler h p f = Some h1"
      and rest: "mutate grow h1 p ms = Some h2"
      by (auto split: option.splits)
    from set_NotFoundHandler_result [OF h1] Cons.prems(3) have
      "objs h1 p = Some (po\<lparr>obj_NotFoundHandler := f\<rparr>)"
      by auto
    from Cons.IH [OF set_NotFoundHandler_heap_ok [OF Cons.prems(1) h1] rest this]
    show ?thesis by simp
  qed
qed

lemma Subrouter_existing:
  "objs h p = Some po \<Longrightarrow> obj_subrouters po key = Some c \<Longrightarrow>
   Subrouter grow h p key = Some (h, c)"
  by (simp add: Subrouter_def)

lemma heap_ok_fresh: "heap_ok h \<Longrightarrow> objs h (next_obj h) = None"
  unfolding heap_ok_def by (metis less_irrefl option.exhaust)

lemma Subrouter_new:
  assumes ok: "heap_ok h" and po: "objs h p = Some po"
    and none: "obj_subrouters po key = None"
    and sub: "Subrouter grow h p key = Some (h1, c)"
  shows "\<exists>s1. c = next_obj h \<and> p < c \<and> heap_ok h1
           \<and> objs h1 =
               (objs h)
                 (c \<mapsto> \<lparr>obj_routes = [], obj_middleware = s1, obj_subrouters = Map.empty,
                        obj_NotFoundHandler = obj_NotFoundHandler po,
                        obj_MaxRequestBodySize = 0\<rparr>,
                  p \<mapsto> po\<lparr>obj_subrouters := (obj_subrouters po)(key \<mapsto> c)\<rparr>)
           \<and> elems h1 s1 = elems h (obj_middleware po)
           \<and> elems h1 (obj_middleware po) = elems h (obj_middleware po)"
proof -
  let ?e = "\<lparr>base = None, len = 0, cap = 0\<rparr>"
  obtain h' s1 where app: "go_append grow h ?e (elems h (obj_middleware po)) = (h', s1)"
    by (cases "go_append grow h ?e (elems h (obj_middleware po))")
  let ?child = "\<lparr>obj_routes = [], obj_middleware = s1, obj_subrouters = Map.empty,
                 obj_NotFoundHandler = obj_NotFoundHandler po, obj_MaxRequestBodySize = 0\<rparr>"
  let ?po = "po\<lparr>obj_subrouters := (obj_subrouters po)(key \<mapsto> c)\<rparr>"
  note o = go_append_objs [OF app]
  from sub po none app o have c: "c = next_obj h"
    and h1: "h1 = h'\<lparr>objs := (objs h)(c \<mapsto> ?child, p \<mapsto> ?po), next_obj := Suc c\<rparr>"
    by (auto simp: Subrouter_def Let_def)
  from ok po c have pc: "p < c"
    by (auto simp: heap_ok_def)
  have s1: "slice_ok h' s1"
    by (rule go_append_slice_ok [OF slice_ok_empty app])
  have e1: "elems h' s1 = elems h (obj_middleware po)"
    using go_append_elems [OF slice_ok_empty app] by (simp add: elems_def)
  have fr: "elems h' t = elems h t \<and> slice_ok h' t" if "slice_ok h t" for t
    using go_append_frame [OF that _ app] by (cases "base t") simp_all
  have b1: "base s1 = None \<or> base s1 = Some (next_arr h)"
    using go_append_base [OF app] by simp
  have sl: "slice_ok h1 t = slice_ok h' t" "elems h1 t = elems h' t" for t
    by (simp_all add: h1 slice_ok_def elems_def split: option.splits)
  have o1: "objs h1 = (objs h)(c \<mapsto> ?child, p \<mapsto> ?po)"
    by (simp add: h1)
  have n1: "next_obj h1 = Suc c"
    by (simp add: h1)
  have dom: "dom (objs h) \<subseteq> dom (objs h1)"
    using o1 by auto
  have old_ok: "slice_ok h (obj_middleware x)" if "objs h q = Some x" for q x
    using ok that by (auto simp: heap_ok_def)
  have old: "base (obj_middleware x) \<noteq> Some (next_arr h)" if "objs h q = Some x" for q x
    using old_ok [OF that] slice_ok_base_less [of h "obj_middleware x" "next_arr h"] by auto
  have part1: "r' < next_obj h1 \<and> slice_ok h1 (obj_middleware ro')
         \<and> (\<forall>k d. obj_subrouters ro' k = Some d \<longrightarrow> r' < d \<and> d \<in> dom (objs h1))"
    if "objs h1 r' = Some ro'" for r' ro'
  proof (cases "r' = p")
    case True
    with that o1 have ro': "ro' = ?po"
      by simp
    have "\<forall>k d. obj_subrouters ?po k = Some d \<longrightarrow> p < d \<and> d \<in> dom (objs h1)"
      using ok po pc dom o1 unfolding heap_ok_def
      by (auto split: if_splits)
    with True ro' pc n1 fr [OF old_ok [OF po]] sl show ?thesis
      by simp
  next
    case False
    show ?thesis
    proof (cases "r' = c")
      case True
      with that o1 False have "ro' = ?child"
        by simp
      with True n1 s1 sl show ?thesis
        by simp
    next
      case rc: False
      with that o1 False have r': "objs h r' = Some ro'"
        by simp
      with ok c have "r' < c" "\<forall>k d. obj_subrouters ro' k = Some d \<longrightarrow> r' < d \<and> d \<in> dom (objs h)"
        unfolding heap_ok_def by blast+
      then have "r' < Suc c"
        "\<forall>k d. obj_subrouters ro' k = Some d \<longrightarrow> r' < d \<and> d \<in> dom (objs h1)"
        using dom by (simp, blast)
      with n1 fr [OF old_ok [OF r']] sl show ?thesis
        by simp
    qed
  qed
  have same: "(q = c \<and> y = ?child) \<or> (\<exists>x. objs h q = Some x \<and> obj_middleware x = obj_middleware y)"
    if "objs h1 q = Some y" for q y
    using that po o1 by (cases "q = p"; cases "q = c") auto
  have bases: "base (obj_middleware o2) \<noteq> Some a"
    if "objs h1 r1 = Some o1" "objs h1 r2 = Some o2" "r1 \<noteq> r2"
      "base (obj_middleware o1) = Some a" for r1 r2 o1 o2 a
  proof -
    from same [OF that(1)] show ?thesis
    proof
      assume q1: "r1 = c \<and> o1 = ?child"
      with that(4) b1 have a: "a = next_arr h"
        by auto
      from same [OF that(2)] q1 that(3) obtain x2 where "objs h r2 = Some x2"
        "obj_middleware x2 = obj_middleware o2"
        by blast
      with old [of r2 x2] a show ?thesis
        by simp
    next
      assume "\<exists>x. objs h r1 = Some x \<and> obj_middleware x = obj_middleware o1"
      then obtain x1 where x1: "objs h r1 = Some x1" "obj_middleware x1 = obj_middleware o1"
        by blast
      from same [OF that(2)] show ?thesis
      proof
        assume "r2 = c \<and> o2 = ?child"
        with b1 old [OF x1(1)] x1(2) that(4) show ?thesis
          by auto
      next
        assume "\<exists>x. objs h r2 = Some x \<and> obj_middleware x = obj_middleware o2"
        then obtain x2 where "objs h r2 = Some x2" "obj_middleware x2 = obj_middleware o2"
          by blast
        with ok x1 that(3,4) show ?thesis
          unfolding heap_ok_def by metis
      qed
    qed
  qed
  have "heap_ok h1"
    unfolding heap_ok_def using part1 bases by blast
  moreover have "elems h1 s1 = elems h (obj_middleware po)"
    using e1 sl by simp
  moreover have "elems h1 (obj_middleware po) = elems h (obj_middleware po)"
    using fr [OF old_ok [OF po]] sl by simp
  ultimately show ?thesis
    using c pc o1 by blast
qed

lemma heap_ok_empty: "heap_ok empty_heap"
  by (simp add: heap_ok_def empty_heap_def)

lemma new_router_heap_ok:
  assumes "heap_ok h" and "new_router h = (h1, r)"
  shows "heap_ok h1"
proof -
  from assms(2) have h1: "h1 = h\<lparr>objs := (objs h)
               (next_obj h \<mapsto> \<lparr>obj_routes = [], obj_middleware = \<lparr>base = None, len = 0, cap = 0\<rparr>,
                      obj_subrouters = Map.empty, obj_NotFoundHandler = http_NotFound,
                      obj_MaxRequestBodySize = 0\<rparr>),
            next_obj := Suc (next_obj h)\<rparr>"
    by (auto simp: new_router_def Let_def)
  have sl: "slice_ok h1 t = slice_ok h t" for t
    by (simp add: h1 slice_ok_def split: option.splits)
  show ?thesis
    using assms(1) unfolding heap_ok_def sl
    by (auto simp: h1 slice_ok_empty less_SucI split: if_splits)
qed

named_theorems hv \<open>definitions unfolded when an example heap is evaluated\<close>

lemmas [hv] = parent_heap_def child_heap_def mutated_heap_def later_mutations_def
  new_router_def empty_heap_def Use_at_def Subrouter_def set_NotFoundHandler_def go_append_def
  roomy_def elems_def middleware_at_def NotFoundHandler_at_def Let_def

lemma parent_heap_ok: "parent_heap = Some h \<Longrightarrow> heap_ok h"
proof -
  obtain h0 p where n: "new_router empty_heap = (h0, p)"
    by (cases "new_router empty_heap")
  assume "parent_heap = Some h"
  with n have "Use_at roomy h0 p [Some (trace ''A'')] = Some h"
    by (simp add: parent_heap_def)
  with new_router_heap_ok [OF heap_ok_empty n] show ?thesis
    by (rule Use_at_heap_ok)
qed

text \<open>\<open>Use\<close> through a pointer appends to the router's list of middleware.\<close>

lemma Use_at_appends:
  assumes "heap_ok h" and "Use_at grow h r mws = Some h1"
  shows "middleware_at h1 r = map_option (\<lambda>l. l @ mws) (middleware_at h r)"
  using Use_at_result [OF assms] by (auto simp: middleware_at_def)

section \<open>Properties of dispatch\<close>

text \<open>
  C1. When the guard admits the request and no child claims it, the route served is the
  one at the least index whose method equals the request's and whose pattern matches the
  path: its handler, wrapped by the middleware, is applied once to that request, whatever
  routes follow it.
\<close>

theorem first_registered_match_wins:
  assumes "body_guard (MaxRequestBodySize r) req = Some req1"
    and "\<forall>(k, c) \<in> set (subrouters r). \<not> claims k req1"
    and "i < length (routes r)"
    and "method' (routes r ! i) = Method req"
    and "match (routes r ! i) (URL_Path req) = Inr (Some ps)"
    and "\<forall>j<i. method' (routes r ! j) \<noteq> Method req
               \<or> match (routes r ! j) (URL_Path req) = Inr None"
  shows "ServeHTTP r req w =
           Inr (wrap_middleware (length (middleware r)) (middleware r) (handler (routes r ! i))
                  (with_match req1 ps (routes r ! i)) w)
         \<and> (middleware r = [] \<longrightarrow>
              ServeHTTP r req w = Inr (handler (routes r ! i) (with_match req1 ps (routes r ! i)) w))"
  using ServeHTTP_selected [OF assms] by simp

theorem first_registered_match_wins_witness:
  "\<not> isl precedence_router
   \<and> length (routes (projr precedence_router)) = 3
   \<and> length (subrouters (projr precedence_router)) = 1
   \<and> method' (routes (projr precedence_router) ! 0) = ''POST''
   \<and> match (routes (projr precedence_router) ! 1) ''/users/me'' = Inr (Some [''id'' \<mapsto> ''me''])
   \<and> match (routes (projr precedence_router) ! 2) ''/users/me'' = Inr (Some Map.empty)
   \<and> outcome (ServeHTTP (projr precedence_router) (NewRequest ''GET'' ''/users/me'' None) NewRecorder)
       = Inr (200, ''first'')"
proof -
  let ?r = "projr precedence_router"
  let ?req = "NewRequest ''GET'' ''/users/me'' None"
  have r: "\<not> isl precedence_router" "length (routes ?r) = 3" "length (subrouters ?r) = 1"
    "method' (routes ?r ! 0) = ''POST''"
    by (simp_all add: precedence_router_eq)
  have m1: "match (routes ?r ! 1) ''/users/me'' = Inr (Some [''id'' \<mapsto> ''me''])"
    by (simp add: precedence_router_eq match_def FindStringSubmatch_def value_char_def
        word_char_def)
  have m2: "match (routes ?r ! 2) ''/users/me'' = Inr (Some Map.empty)"
    by (simp add: precedence_router_eq match_def FindStringSubmatch_def)
  have "middleware ?r = [] \<longrightarrow>
        ServeHTTP ?r ?req NewRecorder =
          Inr (handler (routes ?r ! 1) (with_match ?req [''id'' \<mapsto> ''me''] (routes ?r ! 1))
                 NewRecorder)"
    using first_registered_match_wins [of ?r ?req ?req 1 "[''id'' \<mapsto> ''me'']" NewRecorder] m1
    by (simp add: precedence_router_eq body_guard_def NewRequest_def claims_def)
  then have o: "outcome (ServeHTTP ?r ?req NewRecorder) = Inr (200, ''first'')"
    by (simp add: precedence_router_eq ev)
  show ?thesis
    using r m1 m2 o by (intro conjI)
qed

text \<open>
  C2. When the scan selects no route, the response is 405 with the text "Method not
  allowed" if some route's method differs from the request's, whatever that route's
  pattern; otherwise the NotFoundHandler answers.
\<close>

theorem end_of_scan_outcome:
  assumes "body_guard (MaxRequestBodySize r) req = Some req1"
    and "\<forall>(k, c) \<in> set (subrouters r). \<not> claims k req1"
    and "\<forall>rt \<in> set (routes r). method' rt \<noteq> Method req
                                \<or> match rt (URL_Path req) = Inr None"
  shows "ServeHTTP r req w =
           (if \<exists>rt \<in> set (routes r). method' rt \<noteq> Method req
            then Inr (http_Error w ''Method not allowed'' 405)
            else Inr (NotFoundHandler r req1 w))"
proof -
  have same: "Method req1 = Method req" "URL_Path req1 = URL_Path req"
    using body_guard_same [OF assms(1)] by simp_all
  have "serve_routes (routes r) (middleware r) (NotFoundHandler r) False req1 w =
          (if False \<or> (\<exists>rt \<in> set (routes r). method' rt \<noteq> Method req1)
           then Inr (http_Error w ''Method not allowed'' 405)
           else Inr (NotFoundHandler r req1 w))"
    using assms(3) same by (intro serve_routes_none) simp
  then show ?thesis
    using ServeHTTP_unclaimed [OF assms(1,2)] same by simp
qed

theorem end_of_scan_outcome_witness:
  "\<not> isl users_router
   \<and> match (routes (projr users_router) ! 0) ''/missing'' = Inr None
   \<and> outcome (ServeHTTP (projr users_router) (NewRequest ''POST'' ''/missing'' None) NewRecorder)
       = Inr (405, ''Method not allowed'' @ [CHR 0x0A])
   \<and> outcome (ServeHTTP (projr users_router) (NewRequest ''GET'' ''/missing'' None) NewRecorder)
       = Inr (404, ''404 page not found'' @ [CHR 0x0A])"
proof -
  let ?r = "projr users_router"
  have r: "\<not> isl users_router"
    by (simp add: users_router_eq)
  have m: "match (routes ?r ! 0) ''/missing'' = Inr None"
    by (simp add: users_router_eq match_def FindStringSubmatch_def)
  have "ServeHTTP ?r (NewRequest ''POST'' ''/missing'' None) NewRecorder =
          (if \<exists>rt \<in> set (routes ?r). method' rt \<noteq> Method (NewRequest ''POST'' ''/missing'' None)
           then Inr (http_Error NewRecorder ''Method not allowed'' 405)
           else Inr (NotFoundHandler ?r (NewRequest ''POST'' ''/missing'' None) NewRecorder))"
    by (rule end_of_scan_outcome)
       (simp_all add: users_router_eq body_guard_def NewRequest_def)
  then have post: "outcome (ServeHTTP ?r (NewRequest ''POST'' ''/missing'' None) NewRecorder)
       = Inr (405, ''Method not allowed'' @ [CHR 0x0A])"
    by (simp add: users_router_eq ev)
  have "ServeHTTP ?r (NewRequest ''GET'' ''/missing'' None) NewRecorder =
          (if \<exists>rt \<in> set (routes ?r). method' rt \<noteq> Method (NewRequest ''GET'' ''/missing'' None)
           then Inr (http_Error NewRecorder ''Method not allowed'' 405)
           else Inr (NotFoundHandler ?r (NewRequest ''GET'' ''/missing'' None) NewRecorder))"
    using m
    by (intro end_of_scan_outcome)
       (simp_all add: users_router_eq body_guard_def NewRequest_def)
  then have get: "outcome (ServeHTTP ?r (NewRequest ''GET'' ''/missing'' None) NewRecorder)
       = Inr (404, ''404 page not found'' @ [CHR 0x0A])"
    by (simp add: users_router_eq ev)
  from r m post get show ?thesis
    by simp
qed

text \<open>
  C5. The children are probed before the router's own table.  The first child, in the
  order of the iteration, whose key is the request's host or a literal prefix of its path
  receives the request, with that prefix removed from the path unless the key is the
  host; the response is the child's, whatever the router's own routes and its other
  children are.
\<close>

theorem subrouter_delegation:
  assumes "body_guard (MaxRequestBodySize r) req = Some req1"
    and "subrouters r = pre @ (key, child) # post"
    and "\<forall>(k, c) \<in> set pre. \<not> claims k req1"
    and "claims key req1"
  shows "ServeHTTP r req w =
           ServeHTTP child
             (if key = URL_Host req1 then req1
              else req1\<lparr>URL_Path := drop (length key) (URL_Path req1)\<rparr>) w
         \<and> ServeHTTP (Router rts mws (pre @ (key, child) # post') nf (MaxRequestBodySize r)) req w
             = ServeHTTP r req w"
  using assms by (cases r) (simp add: probe_first)

theorem subrouter_delegation_witness:
  "\<not> isl api_router
   \<and> outcome (ServeHTTP (projr api_router) (NewRequest ''GET'' ''/api/users/123'' None) NewRecorder)
       = Inr (200, ''/users/123?123'')
   \<and> outcome (ServeHTTP (snd (subrouters (projr api_router) ! 1))
                (NewRequest ''GET'' ''/users/123'' None) NewRecorder)
       = Inr (200, ''/users/123?123'')
   \<and> outcome (ServeHTTP (projr api_router)
                (host_request ''GET'' ''www.example.com'' ''/example'') NewRecorder)
       = Inr (200, ''Example'')
   \<and> outcome (ServeHTTP (projr api_router) (NewRequest ''GET'' ''/users/123'' None) NewRecorder)
       = Inr (404, ''404 page not found'' @ [CHR 0x0A])"
proof -
  let ?r = "projr api_router"
  let ?req = "NewRequest ''GET'' ''/api/users/123'' None"
  let ?hreq = "host_request ''GET'' ''www.example.com'' ''/example''"
  let ?child = "snd (subrouters ?r ! 1)"
  let ?host = "snd (subrouters ?r ! 0)"
  have r: "\<not> isl api_router"
    by (simp add: api_router_eq)
  have "ServeHTTP ?r ?req NewRecorder =
          ServeHTTP ?child
            (if ''/api'' = URL_Host ?req then ?req
             else ?req\<lparr>URL_Path := drop (length ''/api'') (URL_Path ?req)\<rparr>) NewRecorder
        \<and> ServeHTTP (Router [] [] ([subrouters ?r ! 0] @ (''/api'', ?child) # [])
                       http_NotFound (MaxRequestBodySize ?r)) ?req NewRecorder
            = ServeHTTP ?r ?req NewRecorder"
    by (rule subrouter_delegation [where ?req1.0 = ?req and post = "[]"])
       (simp_all add: api_router_eq body_guard_def NewRequest_def claims_def)
  then have eq: "ServeHTTP ?r ?req NewRecorder =
      ServeHTTP ?child (NewRequest ''GET'' ''/users/123'' None) NewRecorder"
    by (simp add: NewRequest_def)
  have c: "outcome (ServeHTTP ?child (NewRequest ''GET'' ''/users/123'' None) NewRecorder)
       = Inr (200, ''/users/123?123'')"
    by (simp add: api_router_eq ev)
  have "ServeHTTP ?r ?hreq NewRecorder =
          ServeHTTP ?host
            (if ''www.example.com'' = URL_Host ?hreq then ?hreq
             else ?hreq\<lparr>URL_Path := drop (length ''www.example.com'') (URL_Path ?hreq)\<rparr>)
            NewRecorder
        \<and> ServeHTTP (Router [] [] ([] @ (''www.example.com'', ?host) # [])
                       http_NotFound (MaxRequestBodySize ?r)) ?hreq NewRecorder
            = ServeHTTP ?r ?hreq NewRecorder"
    by (rule subrouter_delegation [where ?req1.0 = ?hreq and post = "[subrouters ?r ! 1]"])
       (simp_all add: api_router_eq body_guard_def host_request_def claims_def)
  then have "ServeHTTP ?r ?hreq NewRecorder = ServeHTTP ?host ?hreq NewRecorder"
    by (simp add: host_request_def)
  then have h: "outcome (ServeHTTP ?r ?hreq NewRecorder) = Inr (200, ''Example'')"
    by (simp add: api_router_eq ev host_request_def)
  have n: "outcome (ServeHTTP ?r (NewRequest ''GET'' ''/users/123'' None) NewRecorder)
       = Inr (404, ''404 page not found'' @ [CHR 0x0A])"
    by (simp add: api_router_eq ev)
  show ?thesis
    using r eq c h n by simp
qed

text \<open>
  C6. The chain served for a selected route is the route's handler wrapped by the
  middleware from the last registered to the first, so the first registered is the
  outermost; Use appends to the list and changes nothing else.
\<close>

theorem middleware_order:
  assumes "body_guard (MaxRequestBodySize r) req = Some req1"
    and "\<forall>(k, c) \<in> set (subrouters r). \<not> claims k req1"
    and "i < length (routes r)"
    and "method' (routes r ! i) = Method req"
    and "match (routes r ! i) (URL_Path req) = Inr (Some ps)"
    and "\<forall>j<i. method' (routes r ! j) \<noteq> Method req
               \<or> match (routes r ! j) (URL_Path req) = Inr None"
  shows "ServeHTTP r req w =
           Inr (foldr (\<lambda>m next. m next) (middleware r) (handler (routes r ! i))
                  (with_match req1 ps (routes r ! i)) w)
         \<and> wrap_middleware 2 [A, B] h = A (B h)
         \<and> Use r mws =
             Router (routes r) (middleware r @ mws) (subrouters r) (NotFoundHandler r)
               (MaxRequestBodySize r)"
  using ServeHTTP_selected [OF assms] wrap_middleware_take [of "length (middleware r)" "middleware r"]
  by (simp add: Use_def numeral_2_eq_2)

theorem middleware_order_witness:
  "\<not> isl traced_router
   \<and> middleware (projr traced_router) = [trace ''A'', trace ''B'']
   \<and> outcome (ServeHTTP (projr traced_router) (NewRequest ''GET'' ''/'' None) NewRecorder)
       = Inr (200, ''A>B>h<B<A'')"
proof -
  let ?r = "projr traced_router"
  let ?req = "NewRequest ''GET'' ''/'' None"
  have r: "\<not> isl traced_router"
    by (simp add: traced_router_eq)
  have m0: "match (routes ?r ! 0) (URL_Path ?req) = Inr (Some Map.empty)"
    by (simp add: traced_router_eq match_def FindStringSubmatch_def NewRequest_def)
  have "ServeHTTP ?r ?req NewRecorder =
          Inr (foldr (\<lambda>m next. m next) (middleware ?r) (handler (routes ?r ! 0))
                 (with_match ?req Map.empty (routes ?r ! 0)) NewRecorder)"
    using middleware_order [of ?r ?req ?req 0 Map.empty NewRecorder] m0
    by (simp add: traced_router_eq body_guard_def NewRequest_def)
  then have "outcome (ServeHTTP ?r ?req NewRecorder) = Inr (200, ''A>B>h<B<A'')"
    by (simp add: traced_router_eq ev)
  with r show ?thesis
    by (simp add: traced_router_eq)
qed

text \<open>
  C7. With a positive limit and a body present, a declared length above the limit is
  answered with 413 before any child or route is looked at; otherwise children and
  routes see the body wrapped by a reader that fails once more than the limit has been
  read.
\<close>

theorem body_size_guard:
  assumes "0 < MaxRequestBodySize r"
    and "Body req = Some b"
  shows "(MaxRequestBodySize r < ContentLength req \<longrightarrow>
            ServeHTTP r req w = Inr (http_Error w ''Request body too large'' 413))
         \<and> (ContentLength req \<le> MaxRequestBodySize r \<longrightarrow>
              ServeHTTP r req w =
                (case probe_subrouters (subrouters r)
                        (req\<lparr>Body := Some (MaxBytesReader b (MaxRequestBodySize r))\<rparr>) w of
                   Some res \<Rightarrow> res
                 | None \<Rightarrow>
                     serve_routes (routes r) (middleware r) (NotFoundHandler r) False
                       (req\<lparr>Body := Some (MaxBytesReader b (MaxRequestBodySize r))\<rparr>) w))
         \<and> ReadAll (MaxBytesReader b (MaxRequestBodySize r)) =
             (case ReadAll b of
                Inl e \<Rightarrow> Inl e
              | Inr d \<Rightarrow>
                  if int (length d) \<le> MaxRequestBodySize r then Inr d else Inl BodyTooLarge)"
  using assms by (cases r) (auto simp: body_guard_def split: sum.splits option.splits)

theorem body_size_guard_witness:
  "\<not> isl limited_router
   \<and> MaxRequestBodySize (projr limited_router) = 1024
   \<and> outcome (ServeHTTP (projr limited_router)
                (NewRequest ''POST'' ''/users/123'' (Some (replicate 1025 CHR ''a''))) NewRecorder)
       = Inr (413, ''Request body too large'' @ [CHR 0x0A])
   \<and> outcome (ServeHTTP (projr limited_router)
                (NewRequest ''POST'' ''/users/123'' (Some (replicate 1024 CHR ''a''))) NewRecorder)
       = Inr (200, replicate 1024 CHR ''a'')
   \<and> outcome (ServeHTTP (projr limited_router)
                (chunked_request ''POST'' ''/users/123'' (replicate 1025 CHR ''a'')) NewRecorder)
       = Inr (413, [])"
proof -
  let ?r = "projr limited_router"
  let ?big = "NewRequest ''POST'' ''/users/123'' (Some (replicate 1025 CHR ''a''))"
  have r: "\<not> isl limited_router" "MaxRequestBodySize ?r = 1024"
    by (simp_all add: limited_router_eq)
  have "MaxRequestBodySize ?r < ContentLength ?big \<longrightarrow>
        ServeHTTP ?r ?big NewRecorder = Inr (http_Error NewRecorder ''Request body too large'' 413)"
    using body_size_guard [of ?r ?big "Raw (replicate 1025 CHR ''a'')" NewRecorder]
    by (simp add: limited_router_eq NewRequest_def)
  then have big: "outcome (ServeHTTP ?r ?big NewRecorder)
       = Inr (413, ''Request body too large'' @ [CHR 0x0A])"
    by (simp add: limited_router_eq NewRequest_def http_Error_def Write_def WriteHeader_def
        NewRecorder_def outcome_def)
  have ok: "outcome (ServeHTTP ?r
                (NewRequest ''POST'' ''/users/123'' (Some (replicate 1024 CHR ''a''))) NewRecorder)
       = Inr (200, replicate 1024 CHR ''a'')"
    by (rule limited_small) simp
  have chunked: "outcome (ServeHTTP ?r
                (chunked_request ''POST'' ''/users/123'' (replicate 1025 CHR ''a'')) NewRecorder)
       = Inr (413, [])"
    by (rule limited_chunked) simp
  from r big ok chunked show ?thesis
    by simp
qed

text \<open>
  C9. The accessor is a total function to parameter maps.  It gives the empty map when
  the context has no value for the parameter key or a value that is not a parameter map,
  and the map attached at match time otherwise: the chain of a selected route receives a
  request whose parameters are the result of the match, which is empty for a route
  without parameters.
\<close>

theorem Params_total:
  assumes "body_guard (MaxRequestBodySize r) req = Some req1"
    and "\<forall>(k, c) \<in> set (subrouters r). \<not> claims k req1"
    and "i < length (routes r)"
    and "method' (routes r ! i) = Method req"
    and "match (routes r ! i) (URL_Path req) = Inr (Some ps)"
    and "\<forall>j<i. method' (routes r ! j) \<noteq> Method req
               \<or> match (routes r ! j) (URL_Path req) = Inr None"
  shows "(\<exists>req2. ServeHTTP r req w =
              Inr (wrap_middleware (length (middleware r)) (middleware r)
                     (handler (routes r ! i)) req2 w)
            \<and> Params req2 = ps)
         \<and> (params (routes r ! i) = [] \<longrightarrow> ps = Map.empty)
         \<and> (Value (ctx req0) ParamsKey = None \<longrightarrow> Params req0 = Map.empty)
         \<and> (Value (ctx req0) ParamsKey = Some (VOther x) \<longrightarrow> Params req0 = Map.empty)
         \<and> (Value (ctx req0) ParamsKey = Some (VRoute ri) \<longrightarrow> Params req0 = Map.empty)
         \<and> (Value (ctx req0) ParamsKey = Some (VParams ps0) \<longrightarrow> Params req0 = ps0)"
proof -
  have "ServeHTTP r req w =
          Inr (wrap_middleware (length (middleware r)) (middleware r)
                 (handler (routes r ! i)) (with_match req1 ps (routes r ! i)) w)
        \<and> Params (with_match req1 ps (routes r ! i)) = ps"
    using ServeHTTP_selected [OF assms] by (simp add: Params_with_match)
  then have a: "\<exists>req2. ServeHTTP r req w =
              Inr (wrap_middleware (length (middleware r)) (middleware r)
                     (handler (routes r ! i)) req2 w)
            \<and> Params req2 = ps"
    by (rule exI)
  have b: "params (routes r ! i) = [] \<longrightarrow> ps = Map.empty"
    using assms(5) by (auto simp: match_parameterless split: if_splits)
  show ?thesis
    using a b by (simp add: Params_def)
qed

theorem Params_total_witness:
  "\<not> isl users_router
   \<and> match (routes (projr users_router) ! 0) ''/users/123'' = Inr (Some [''id'' \<mapsto> ''123''])
   \<and> (\<exists>req2. ServeHTTP (projr users_router) (NewRequest ''GET'' ''/users/123'' None) NewRecorder
                = Inr (echo_param ''id'' req2 NewRecorder)
              \<and> Params req2 = [''id'' \<mapsto> ''123''])
   \<and> outcome (ServeHTTP (projr users_router) (NewRequest ''GET'' ''/users/123'' None) NewRecorder)
       = Inr (200, ''123'')
   \<and> Params (NewRequest ''GET'' ''/users/123'' None) = Map.empty"
proof -
  let ?r = "projr users_router"
  let ?req = "NewRequest ''GET'' ''/users/123'' None"
  let ?ps = "[''id'' \<mapsto> ''123'']"
  have r: "\<not> isl users_router"
    by (simp add: users_router_eq)
  have m: "match (routes ?r ! 0) ''/users/123'' = Inr (Some ?ps)"
    by (simp add: users_router_eq match_def FindStringSubmatch_def value_char_def word_char_def)
  have t: "(\<exists>req2. ServeHTTP ?r ?req NewRecorder =
              Inr (wrap_middleware (length (middleware ?r)) (middleware ?r)
                     (handler (routes ?r ! 0)) req2 NewRecorder)
            \<and> Params req2 = ?ps)
         \<and> (Value (ctx ?req) ParamsKey = None \<longrightarrow> Params ?req = Map.empty)"
    using Params_total [where r = ?r and req = ?req and ?req1.0 = ?req and i = 0 and ps = ?ps
        and ?req0.0 = ?req and w = NewRecorder] m
    by (simp add: users_router_eq body_guard_def NewRequest_def)
  from t [THEN conjunct1] obtain req2 where s: "ServeHTTP ?r ?req NewRecorder =
              Inr (wrap_middleware (length (middleware ?r)) (middleware ?r)
                     (handler (routes ?r ! 0)) req2 NewRecorder)"
    and p: "Params req2 = ?ps"
    by (elim exE conjE)
  note e = t [THEN conjunct2]
  from s have s': "ServeHTTP ?r ?req NewRecorder = Inr (echo_param ''id'' req2 NewRecorder)"
    by (simp add: users_router_eq)
  with p have o: "outcome (ServeHTTP ?r ?req NewRecorder) = Inr (200, ''123'')"
    by (simp add: outcome_def echo_param_def Write_def WriteHeader_def NewRecorder_def)
  from e have e': "Params ?req = Map.empty"
    by (simp add: NewRequest_def Value_def)
  from s' p have x: "\<exists>req2. ServeHTTP ?r ?req NewRecorder = Inr (echo_param ''id'' req2 NewRecorder)
              \<and> Params req2 = ?ps"
    by (intro exI conjI)
  show ?thesis
    using r m x o e' by (intro conjI)
qed

section \<open>Properties of templates and matching\<close>

text \<open>
  C3. The pattern text of a template is the template with each token \<open>:name\<close> replaced
  by the group, between \<open>^\<close> and \<open>$\<close>, and the names are kept in order.  When the
  literal characters of the template have no special meaning in a pattern, the compiled
  pattern has a literal for each of them and a group for each token.  A compiled route
  matches a path exactly when the whole path is described by the pattern, each group
  standing for one or more characters of the class; the result pairs the names with the
  texts of the groups by position, and a path that is not described yields nil.
\<close>

theorem template_round_trip:
  assumes "compile_route m t h = Inr route"
  shows "replace_param_tokens t = (render (tokens t), seg_names (tokens t))
         \<and> MustCompile (''^'' @ render (tokens t) @ ''$'') = Inr (path route)
         \<and> params route = seg_names (tokens t)
         \<and> (list_all plain_char (literal_chars (tokens t)) \<longrightarrow>
              path route = map seg_item (tokens t))
         \<and> (match route p = Inr None \<longleftrightarrow> (\<forall>vs. \<not> fills (path route) vs p))
         \<and> (\<forall>ps. match route p = Inr (Some ps) \<longrightarrow>
               (\<exists>vs. fills (path route) vs p \<and> length (params route) \<le> length vs
                     \<and> ps = zip_params (params route) vs))
         \<and> (\<forall>e. match route p \<noteq> Inl e)"
proof -
  have a: "replace_param_tokens t = (render (tokens t), seg_names (tokens t))"
    by (rule replace_param_tokens_render)
  from assms have b: "MustCompile (''^'' @ render (tokens t) @ ''$'') = Inr (path route)"
    and c: "params route = seg_names (tokens t)"
    unfolding compile_route_tokens by (auto split: sum.splits)
  have d: "list_all plain_char (literal_chars (tokens t)) \<longrightarrow>
             path route = map seg_item (tokens t)"
    using assms compile_route_plain [of t m h] by auto
  note m = match_compiled [OF assms, of p]
  have e: "match route p = Inr None \<longleftrightarrow> (\<forall>vs. \<not> fills (path route) vs p)"
  proof (cases "match_items (path route) p")
    case None
    with m match_items_complete [of "path route" _ p] show ?thesis
      by auto
  next
    case (Some vs)
    with m match_items_sound [of "path route" p vs] show ?thesis
      by auto
  qed
  have f: "\<forall>ps. match route p = Inr (Some ps) \<longrightarrow>
               (\<exists>vs. fills (path route) vs p \<and> length (params route) \<le> length vs
                     \<and> ps = zip_params (params route) vs)"
  proof (cases "match_items (path route) p")
    case None
    with m show ?thesis by simp
  next
    case (Some vs)
    with m match_items_sound [of "path route" p vs] match_items_groups [of "path route" p vs]
      compile_route_groups [OF assms]
    show ?thesis
      by auto
  qed
  have g: "\<forall>e. match route p \<noteq> Inl e"
    using m by (auto split: option.splits)
  show ?thesis
    using a b c d e f g by (intro conjI)
qed

theorem template_round_trip_witness:
  "compile_route ''GET'' ''/users/:id'' (say ''x'') =
     Inr \<lparr>path = map Lit ''/users/'' @ [Group], method' = ''GET'', params = [''id''],
          template = ''/users/:id'', handler = say ''x''\<rparr>
   \<and> list_all plain_char (literal_chars (tokens ''/users/:id''))
   \<and> match \<lparr>path = map Lit ''/users/'' @ [Group], method' = ''GET'', params = [''id''],
          template = ''/users/:id'', handler = say ''x''\<rparr> ''/users/42''
       = Inr (Some [''id'' \<mapsto> ''42''])
   \<and> (\<exists>vs. fills (map Lit ''/users/'' @ [Group]) vs ''/users/42''
            \<and> [''id'' \<mapsto> ''42''] = zip_params [''id''] vs)
   \<and> match \<lparr>path = map Lit ''/users/'' @ [Group], method' = ''GET'', params = [''id''],
          template = ''/users/:id'', handler = say ''x''\<rparr> ''/users/42/posts''
       = Inr None
   \<and> (\<forall>vs. \<not> fills (map Lit ''/users/'' @ [Group]) vs ''/users/42/posts'')
   \<and> map_sum id (\<lambda>route. match route ''/foo/123/bar/test-1'')
         (compile_route ''GET'' ''/foo/:id/bar/:desc'' (say ''x''))
       = Inr (Inr (Some [''id'' \<mapsto> ''123'', ''desc'' \<mapsto> ''test-1'']))"
proof -
  let ?route = "\<lparr>path = map Lit ''/users/'' @ [Group], method' = ''GET'', params = [''id''],
          template = ''/users/:id'', handler = say ''x''\<rparr>"
  have c: "compile_route ''GET'' ''/users/:id'' (say ''x'') = Inr ?route"
    by (rule users_id)
  have p: "list_all plain_char (literal_chars (tokens ''/users/:id''))"
    by (simp add: tokens_users_id plain_char_def meta_char_def backslash_def)
  have m1: "match ?route ''/users/42'' = Inr (Some [''id'' \<mapsto> ''42''])"
    by (simp add: match_def FindStringSubmatch_def value_char_def word_char_def)
  have m2: "match ?route ''/users/42/posts'' = Inr None"
    by (simp add: match_def FindStringSubmatch_def value_char_def word_char_def)
  have "\<forall>ps. match ?route ''/users/42'' = Inr (Some ps) \<longrightarrow>
          (\<exists>vs. fills (path ?route) vs ''/users/42'' \<and> length (params ?route) \<le> length vs
                \<and> ps = zip_params (params ?route) vs)"
    using template_round_trip [OF c, of "''/users/42''"] by (elim conjE)
  with m1 obtain vs where "fills (path ?route) vs ''/users/42''"
    "[''id'' \<mapsto> ''42''] = zip_params (params ?route) vs"
    by metis
  then have f1: "\<exists>vs. fills (map Lit ''/users/'' @ [Group]) vs ''/users/42''
            \<and> [''id'' \<mapsto> ''42''] = zip_params [''id''] vs"
    by (intro exI [of _ vs]) simp
  have "match ?route ''/users/42/posts'' = Inr None
          \<longleftrightarrow> (\<forall>vs. \<not> fills (path ?route) vs ''/users/42/posts'')"
    using template_round_trip [OF c, of "''/users/42/posts''"] by (elim conjE)
  with m2 have "\<forall>vs. \<not> fills (path ?route) vs ''/users/42/posts''"
    by (rule iffD1 [rotated])
  then have f2: "\<forall>vs. \<not> fills (map Lit ''/users/'' @ [Group]) vs ''/users/42/posts''"
    by simp
  have n: "map_sum id (\<lambda>route. match route ''/foo/123/bar/test-1'')
         (compile_route ''GET'' ''/foo/:id/bar/:desc'' (say ''x''))
       = Inr (Inr (Some [''id'' \<mapsto> ''123'', ''desc'' \<mapsto> ''test-1'']))"
    by (simp add: foo_bar_route match_def FindStringSubmatch_def value_char_def word_char_def)
  show ?thesis
    using c p m1 f1 m2 f2 n by (intro conjI)
qed

text \<open>
  C4. The code has no wildcard: the \<open>*\<close> of the template \<open>/validate/*\<close> reaches the
  pattern as the repetition operator on the preceding slash, the route has no parameter,
  it matches \<open>/validate\<close> followed by slashes only, and the request for
  \<open>/validate/foo/bar\<close> is answered by the NotFoundHandler.
\<close>

theorem wildcard_is_repetition:
  "wildcard_router =
     Inr (Router [\<lparr>path = map Lit ''/validate'' @ [Star CHR ''/''], method' = ''GET'',
                    params = [], template = ''/validate/*'', handler = echo_param ''path''\<rparr>]
            [] [] http_NotFound 0)
   \<and> match (routes (projr wildcard_router) ! 0) ''/validate/foo/bar'' = Inr None
   \<and> match (routes (projr wildcard_router) ! 0) ''/validate/foo'' = Inr None
   \<and> match (routes (projr wildcard_router) ! 0) ''/validate//'' = Inr (Some Map.empty)
   \<and> outcome (ServeHTTP (projr wildcard_router)
                (NewRequest ''GET'' ''/validate/foo/bar'' None) NewRecorder)
       = Inr (404, ''404 page not found'' @ [CHR 0x0A])"
  by (simp add: wildcard_router_eq ev)

text \<open>
  C10. For a route built by registration, the result of match is nil exactly when the
  pattern does not match the path, and it never panics; a route without parameters
  yields the empty map, which is not nil, and the scan serves such a route when its
  method and pattern match.
\<close>

theorem match_nil_iff_no_match:
  assumes "compile_route m t h = Inr route"
  shows "(match route p = Inr None \<longleftrightarrow> FindStringSubmatch (path route) p = None)
         \<and> (\<forall>e. match route p \<noteq> Inl e)
         \<and> (params route = [] \<and> FindStringSubmatch (path route) p \<noteq> None \<longrightarrow>
              match route p = Inr (Some Map.empty))
         \<and> (method' route = Method req \<and> FindStringSubmatch (path route) (URL_Path req) \<noteq> None \<longrightarrow>
              (\<exists>ps. match route (URL_Path req) = Inr (Some ps)
                  \<and> serve_routes (route # rest) mws nf mm req w =
                      Inr (wrap_middleware (length mws) mws (handler route)
                             (with_match req ps route) w)))"
proof -
  note m = match_compiled [OF assms]
  have a: "match route p = Inr None \<longleftrightarrow> FindStringSubmatch (path route) p = None"
    using m [of p] by (auto simp: FindStringSubmatch_def split: option.splits)
  have b: "\<forall>e. match route p \<noteq> Inl e"
    using m [of p] by (auto split: option.splits)
  have c: "params route = [] \<and> FindStringSubmatch (path route) p \<noteq> None \<longrightarrow>
              match route p = Inr (Some Map.empty)"
    by (simp add: match_parameterless)
  have d: "method' route = Method req \<and> FindStringSubmatch (path route) (URL_Path req) \<noteq> None \<longrightarrow>
              (\<exists>ps. match route (URL_Path req) = Inr (Some ps)
                  \<and> serve_routes (route # rest) mws nf mm req w =
                      Inr (wrap_middleware (length mws) mws (handler route)
                             (with_match req ps route) w))"
    using m [of "URL_Path req"]
    by (auto simp: FindStringSubmatch_def with_match_def split: option.splits)
  show ?thesis
    using a b c d by (intro conjI)
qed

theorem match_nil_iff_no_match_witness:
  "compile_route ''GET'' ''/hello'' (say ''Hello, world!'') =
     Inr \<lparr>path = map Lit ''/hello'', method' = ''GET'', params = [],
          template = ''/hello'', handler = say ''Hello, world!''\<rparr>
   \<and> FindStringSubmatch (map Lit ''/hello'') ''/hello'' = Some [''/hello'']
   \<and> match \<lparr>path = map Lit ''/hello'', method' = ''GET'', params = [],
          template = ''/hello'', handler = say ''Hello, world!''\<rparr> ''/hello''
       = Inr (Some Map.empty)
   \<and> match \<lparr>path = map Lit ''/hello'', method' = ''GET'', params = [],
          template = ''/hello'', handler = say ''Hello, world!''\<rparr> ''/bye''
       = Inr None
   \<and> outcome (ServeHTTP (projr hello_router) (NewRequest ''GET'' ''/hello'' None) NewRecorder)
       = Inr (200, ''Hello, world!'')"
proof -
  let ?route = "\<lparr>path = map Lit ''/hello'', method' = ''GET'', params = [],
          template = ''/hello'', handler = say ''Hello, world!''\<rparr>"
  have c: "compile_route ''GET'' ''/hello'' (say ''Hello, world!'') = Inr ?route"
    by (rule hello_route)
  have f: "FindStringSubmatch (map Lit ''/hello'') ''/hello'' = Some [''/hello'']"
    by (simp add: FindStringSubmatch_def)
  have f2: "FindStringSubmatch (path ?route) ''/bye'' = None"
    by (simp add: FindStringSubmatch_def)
  note t = match_nil_iff_no_match [OF c]
  have "params ?route = [] \<and> FindStringSubmatch (path ?route) ''/hello'' \<noteq> None \<longrightarrow>
          match ?route ''/hello'' = Inr (Some Map.empty)"
    by (rule t [of "''/hello''", THEN conjunct2, THEN conjunct2, THEN conjunct1])
  with f have m1: "match ?route ''/hello'' = Inr (Some Map.empty)"
    by simp
  have "match ?route ''/bye'' = Inr None \<longleftrightarrow> FindStringSubmatch (path ?route) ''/bye'' = None"
    by (rule t [of "''/bye''", THEN conjunct1])
  with f2 have m2: "match ?route ''/bye'' = Inr None"
    by simp
  have o: "outcome (ServeHTTP (projr hello_router) (NewRequest ''GET'' ''/hello'' None) NewRecorder)
       = Inr (200, ''Hello, world!'')"
    by (simp add: hello_router_eq ev)
  show ?thesis
    using c f m1 m2 o by (intro conjI)
qed

section \<open>Children and later mutations of the parent\<close>

text \<open>
  C8. Subrouter returns the child already registered for the key, leaving the heap as it
  is, or creates one: a new router without routes or children, with the parent's
  NotFoundHandler and with the parent's middleware copied into a backing array of its
  own.  Whatever middleware is then appended to the parent and whatever NotFoundHandler
  it is then given, the child is the same object, its middleware list is the same, and
  it is still the parent's child for the key.
\<close>

theorem subrouter_snapshot:
  assumes ok: "heap_ok h" and po: "objs h p = Some po"
    and sub: "Subrouter grow h p key = Some (h1, c)"
    and mut: "mutate grow h1 p ms = Some h2"
  shows "\<exists>co. objs h1 c = Some co \<and> c \<noteq> p
           \<and> (\<forall>d. obj_subrouters po key = Some d \<longrightarrow> c = d \<and> h1 = h)
           \<and> (obj_subrouters po key = None \<longrightarrow>
                 objs h c = None \<and> obj_routes co = [] \<and> obj_subrouters co = Map.empty
                 \<and> obj_NotFoundHandler co = obj_NotFoundHandler po
                 \<and> elems h1 (obj_middleware co) = elems h (obj_middleware po)
                 \<and> elems h1 (obj_middleware po) = elems h (obj_middleware po))
           \<and> (\<forall>a. base (obj_middleware co) = Some a \<longrightarrow> base (obj_middleware po) \<noteq> Some a)
           \<and> objs h2 c = Some co
           \<and> elems h2 (obj_middleware co) = elems h1 (obj_middleware co)
           \<and> Subrouter grow h2 p key = Some (h2, c)"
proof (cases "obj_subrouters po key")
  case (Some d)
  with sub po have c: "c = d" "h1 = h"
    by (simp_all add: Subrouter_def)
  from ok po Some c obtain co where co: "objs h c = Some co" and cp: "c \<noteq> p"
    unfolding heap_ok_def by (metis domD less_irrefl)
  from mutate_frame [OF ok _ co cp] mut c
  have f: "objs h2 c = Some co" "elems h2 (obj_middleware co) = elems h (obj_middleware co)"
    by simp_all
  from mutate_subrouters [OF ok _ po] mut c obtain po2 where
    "objs h2 p = Some po2" "obj_subrouters po2 = obj_subrouters po"
    by blast
  with Some c have again: "Subrouter grow h2 p key = Some (h2, c)"
    by (simp add: Subrouter_existing)
  have dis: "\<forall>a. base (obj_middleware co) = Some a \<longrightarrow> base (obj_middleware po) \<noteq> Some a"
    using ok po co cp unfolding heap_ok_def by blast
  from co cp Some c f again dis show ?thesis
    by simp
next
  case None
  from Subrouter_new [OF ok po None sub] obtain s1 where
    c: "c = next_obj h" "p < c" and ok1: "heap_ok h1"
    and o1: "objs h1 =
               (objs h)
                 (c \<mapsto> \<lparr>obj_routes = [], obj_middleware = s1, obj_subrouters = Map.empty,
                        obj_NotFoundHandler = obj_NotFoundHandler po,
                        obj_MaxRequestBodySize = 0\<rparr>,
                  p \<mapsto> po\<lparr>obj_subrouters := (obj_subrouters po)(key \<mapsto> c)\<rparr>)"
    and e: "elems h1 s1 = elems h (obj_middleware po)"
      "elems h1 (obj_middleware po) = elems h (obj_middleware po)"
    by blast
  let ?co = "\<lparr>obj_routes = [], obj_middleware = s1, obj_subrouters = Map.empty,
              obj_NotFoundHandler = obj_NotFoundHandler po, obj_MaxRequestBodySize = 0\<rparr>"
  let ?po = "po\<lparr>obj_subrouters := (obj_subrouters po)(key \<mapsto> c)\<rparr>"
  from c have cp: "c \<noteq> p"
    by simp
  with o1 have co: "objs h1 c = Some ?co" and po1: "objs h1 p = Some ?po"
    by simp_all
  from ok c have fresh: "objs h c = None"
    by (simp add: heap_ok_fresh)
  from mutate_frame [OF ok1 mut co cp]
  have f: "objs h2 c = Some ?co" "elems h2 (obj_middleware ?co) = elems h1 (obj_middleware ?co)"
    by simp_all
  from mutate_subrouters [OF ok1 mut po1] obtain po2 where
    "objs h2 p = Some po2" "obj_subrouters po2 = obj_subrouters ?po"
    by blast
  then have again: "Subrouter grow h2 p key = Some (h2, c)"
    by (simp add: Subrouter_existing)
  have "\<forall>a. base (obj_middleware ?co) = Some a \<longrightarrow> base (obj_middleware ?po) \<noteq> Some a"
    using ok1 co po1 cp unfolding heap_ok_def by blast
  then have dis: "\<forall>a. base (obj_middleware ?co) = Some a \<longrightarrow> base (obj_middleware po) \<noteq> Some a"
    by simp
  from co cp None fresh e f again dis show ?thesis
    by simp
qed

theorem subrouter_snapshot_witness:
  "Option.bind parent_heap (\<lambda>h. middleware_at h 0) = Some [Some (trace ''A'')]
   \<and> map_option snd child_heap = Some 1
   \<and> Option.bind mutated_heap (\<lambda>h. middleware_at h 0)
       = Some [Some (trace ''A''), Some (trace ''B'')]
   \<and> Option.bind mutated_heap (\<lambda>h. NotFoundHandler_at h 0) = Some (say ''gone'')
   \<and> Option.bind mutated_heap (\<lambda>h. middleware_at h 1) = Some [Some (trace ''A'')]
   \<and> Option.bind mutated_heap (\<lambda>h. NotFoundHandler_at h 1) = Some http_NotFound
   \<and> Option.bind mutated_heap (\<lambda>h. Subrouter roomy h 0 ''/api'') = map_option (\<lambda>h. (h, 1)) mutated_heap"
proof -
  let ?H = "the parent_heap" and ?H1 = "fst (the child_heap)" and ?H2 = "the mutated_heap"
  let ?po = "the (objs ?H 0)"
  have ph: "parent_heap = Some ?H"
    by (simp add: hv)
  have ch: "child_heap = Some (?H1, 1)"
    by (simp add: hv)
  have mh: "mutated_heap = Some ?H2"
    by (simp add: hv)
  have ok: "heap_ok ?H"
    by (rule parent_heap_ok [OF ph])
  have po: "objs ?H 0 = Some ?po"
    by (simp add: hv)
  have sub: "Subrouter roomy ?H 0 ''/api'' = Some (?H1, 1)"
    by (simp add: hv)
  have mut: "mutate roomy ?H1 0 later_mutations = Some ?H2"
    by (simp add: hv)
  from subrouter_snapshot [OF ok po sub mut] obtain co where
    co1: "objs ?H1 1 = Some co" and co2: "objs ?H2 1 = Some co"
    and same: "elems ?H2 (obj_middleware co) = elems ?H1 (obj_middleware co)"
    and again: "Subrouter roomy ?H2 0 ''/api'' = Some (?H2, 1)"
    by blast
  have before: "middleware_at ?H1 1 = Some [Some (trace ''A'')]"
    "NotFoundHandler_at ?H1 1 = Some http_NotFound"
    by (simp_all add: hv)
  with co1 co2 same have child: "middleware_at ?H2 1 = Some [Some (trace ''A'')]"
    "NotFoundHandler_at ?H2 1 = Some http_NotFound"
    by (simp_all add: middleware_at_def NotFoundHandler_at_def)
  have p0: "middleware_at ?H 0 = Some [Some (trace ''A'')]"
    by (simp add: hv)
  have p2: "middleware_at ?H2 0 = Some [Some (trace ''A''), Some (trace ''B'')]"
    "NotFoundHandler_at ?H2 0 = Some (say ''gone'')"
    by (simp_all add: hv)
  have "Option.bind parent_heap (\<lambda>h. middleware_at h 0) = Some [Some (trace ''A'')]"
    using p0 by (subst ph) simp
  moreover have "map_option snd child_heap = Some 1"
    by (subst ch) simp
  moreover have "Option.bind mutated_heap (\<lambda>h. middleware_at h 0)
       = Some [Some (trace ''A''), Some (trace ''B'')]"
    using p2 by (subst mh) simp
  moreover have "Option.bind mutated_heap (\<lambda>h. NotFoundHandler_at h 0) = Some (say ''gone'')"
    using p2 by (subst mh) simp
  moreover have "Option.bind mutated_heap (\<lambda>h. middleware_at h 1) = Some [Some (trace ''A'')]"
    using child by (subst mh) simp
  moreover have "Option.bind mutated_heap (\<lambda>h. NotFoundHandler_at h 1) = Some http_NotFound"
    using child by (subst mh) simp
  moreover have "Option.bind mutated_heap (\<lambda>h. Subrouter roomy h 0 ''/api'')
       = map_option (\<lambda>h. (h, 1)) mutated_heap"
    using again by (subst mh, subst mh) simp
  ultimately show ?thesis
    by (intro conjI)
qed

end
